theory Spec2Isabelle
  imports Complex_Main "HOL-Library.AList"
begin

section \<open>Python values, errors and containers\<close>

text \<open>
  Exceptions that the modelled code can raise. A function that may raise returns
  \<open>error + 'a\<close> with \<open>Inl\<close> for the exception.
\<close>

datatype error = TypeError | AttributeError | KeyError | IndexError | OverflowError

text \<open>
  Connection objects are mutable and shared between containers (the per-target lists
  of a ConnectionSet, the disabled registry of a manager). They live in an object
  store: a list of connection values, a reference being the index of the object.
  Objects are never freed, a new object takes the next index, so references order
  objects by creation.
\<close>

type_synonym conn_ref = nat

text \<open>A row of a synapse-parameter table. Field 0 is the source gid.\<close>

record synapse_parameters =
  field0 :: int
  synType :: int
  isec :: int
  ipt :: int
  offset :: rat

text \<open>
  Modelled from the spec: the class \<open>Connection\<close> of \<open>neurodamus/connection.py\<close>, which
  is not among the sources. Its attributes are those of the data model: source id
  (possibly absent), target id, population pair, weight factor, lock flag, disabled
  flag, the ordered synapse placements and the delayed-weight schedule.
\<close>

record 'p connection =
  sgid :: "int option"
  tgid :: int
  population_id :: "int \<times> int"
  weight_factor :: rat
  locked :: bool
  disabled :: bool
  synapses :: "('p \<times> synapse_parameters \<times> int) list"
  delayed_weights :: "(rat \<times> rat) list"

text \<open>
  Modelled from the spec: the constructor \<open>Connection(sgid, tgid, src_pop_id, dst_pop_id,
  weight_factor=...)\<close>: a fresh connection is neither locked nor disabled and
  has no synapses.
\<close>

definition Connection :: "int \<Rightarrow> int \<Rightarrow> int \<Rightarrow> int \<Rightarrow> rat \<Rightarrow> 'p connection" where
  "Connection s t src dst w =
     \<lparr>sgid = Some s, tgid = t, population_id = (src, dst), weight_factor = w,
      locked = False, disabled = False, synapses = [], delayed_weights = []\<rparr>"

text \<open>
  A Python \<open>dict\<close> keeps its keys in insertion order: an association list with
  distinct keys. \<open>d[k] = v\<close> is \<open>AList.update k v d\<close> (in place for a present key, at
  the end for a new one). \<open>d[k]\<close> on a \<open>defaultdict(list)\<close> inserts an empty list for
  a missing key and returns it.
\<close>

definition defaultdict_getitem :: "('k \<times> 'v list) list \<Rightarrow> 'k \<Rightarrow> ('k \<times> 'v list) list \<times> 'v list" where
  "defaultdict_getitem d k =
     (case map_of d k of
        Some v \<Rightarrow> (d, v)
      | None \<Rightarrow> (d @ [(k, [])], []))"

definition dict_contains :: "('k \<times> 'v) list \<Rightarrow> 'k \<Rightarrow> bool" where
  "dict_contains d k = (map_of d k \<noteq> None)"

text \<open>\<open>xs.insert(pos, x)\<close> and \<open>del xs[idx]\<close> on a Python list.\<close>

definition list_insert :: "nat \<Rightarrow> 'a \<Rightarrow> 'a list \<Rightarrow> 'a list" where
  "list_insert pos x xs = take pos xs @ x # drop pos xs"

definition list_del :: "nat \<Rightarrow> 'a list \<Rightarrow> 'a list" where
  "list_del idx xs = take idx xs @ drop (Suc idx) xs"

section \<open>Binary search\<close>

text \<open>
  Modelled from the spec: \<open>bin_search(container, key, keyf)\<close> of \<open>neurodamus/utils\<close>,
  which is not among the sources. It is a binary search over a sequence sorted by
  \<open>keyf\<close> that returns the index of the key when present and its insertion index
  otherwise. Comparing the integer key with an absent (\<open>None\<close>) key raises
  \<open>TypeError\<close>, as Python does.
\<close>

function bin_search_loop :: "int option list \<Rightarrow> int \<Rightarrow> nat \<Rightarrow> nat \<Rightarrow> error + nat" where
  "bin_search_loop keys key lo hi =
     (if lo < hi then
        (let mid = (lo + hi) div 2 in
         if length keys \<le> mid then Inl IndexError
         else (case keys ! mid of
                 None \<Rightarrow> Inl TypeError
               | Some k \<Rightarrow>
                   if k < key then bin_search_loop keys key (mid + 1) hi
                   else bin_search_loop keys key lo mid))
      else Inr lo)"
  by pat_completeness auto
termination
  by (relation "measure (\<lambda>(keys, key, lo, hi). hi - lo)") auto

declare bin_search_loop.simps [simp del]

definition bin_search :: "'a list \<Rightarrow> int \<Rightarrow> ('a \<Rightarrow> int option) \<Rightarrow> error + nat" where
  "bin_search container key keyf = bin_search_loop (map keyf container) key 0 (length container)"

section \<open>ConnectionSet\<close>

record ConnectionSet =
  src_id :: int
  dst_id :: int
  src_name :: "string option"
  dst_name :: "string option"
  connections_map :: "(int \<times> conn_ref list) list"
  conn_count :: int

text \<open>\<open>ConnectionSet.__init__\<close>; the connection factory is the class \<open>Connection\<close>.\<close>

definition ConnectionSet_init :: "int \<Rightarrow> int \<Rightarrow> ConnectionSet" where
  "ConnectionSet_init src dst =
     \<lparr>src_id = src, dst_id = dst, src_name = None, dst_name = None,
      connections_map = [], conn_count = 0\<rparr>"

text \<open>\<open>ConnectionSet.__contains__\<close> and \<open>ConnectionSet.count\<close>.\<close>

definition contains :: "ConnectionSet \<Rightarrow> int \<Rightarrow> bool" where
  "contains cs item = dict_contains (connections_map cs) item"

definition count :: "ConnectionSet \<Rightarrow> int" where
  "count cs = conn_count cs"

text \<open>
  \<open>ConnectionSet._find_connection\<close>. The result is the set (its map may have gained
  the key), the target's connection list and the index, \<open>None\<close> when the connection
  is not found under \<open>exact\<close>.
\<close>

definition find_connection ::
  "int \<Rightarrow> int \<Rightarrow> bool \<Rightarrow> 'p connection list \<Rightarrow> ConnectionSet
     \<Rightarrow> error + (ConnectionSet \<times> conn_ref list \<times> nat option)" where
  "find_connection s t exact h cs =
     (let (m, cell_conns) = defaultdict_getitem (connections_map cs) t;
          cs' = cs\<lparr>connections_map := m\<rparr>
      in case (if cell_conns \<noteq> [] then bin_search cell_conns s (\<lambda>a. sgid (h ! a)) else Inr 0) of
           Inl e \<Rightarrow> Inl e
         | Inr pos \<Rightarrow>
             if exact \<and> (pos = length cell_conns \<or> sgid (h ! (cell_conns ! pos)) \<noteq> Some s)
             then Inr (cs', cell_conns, None)
             else Inr (cs', cell_conns, Some pos))"

text \<open>\<open>ConnectionSet.get_connection\<close>.\<close>

definition get_connection ::
  "int \<Rightarrow> int \<Rightarrow> 'p connection list \<Rightarrow> ConnectionSet \<Rightarrow> error + (ConnectionSet \<times> conn_ref option)" where
  "get_connection s t h cs =
     (case find_connection s t True h cs of
        Inl e \<Rightarrow> Inl e
      | Inr (cs', conn_lst, idx) \<Rightarrow>
          Inr (cs', case idx of None \<Rightarrow> None | Some i \<Rightarrow> Some (conn_lst ! i)))"

text \<open>
  \<open>ConnectionSet.get_or_create_connection\<close>. The keyword arguments passed on to the
  factory are reduced to the weight factor. \<open>create_and_insert\<close> is the end of the
  function, reached when the pair is not found: the new object is allocated,
  inserted at \<open>pos\<close> in the list of the target and counted.
\<close>

definition create_and_insert ::
  "int \<Rightarrow> int \<Rightarrow> rat \<Rightarrow> 'p connection list \<Rightarrow> ConnectionSet \<Rightarrow> (int \<times> conn_ref list) list
     \<Rightarrow> conn_ref list \<Rightarrow> nat \<Rightarrow> ('p connection list \<times> ConnectionSet) \<times> conn_ref" where
  "create_and_insert s t w h cs m conns pos =
     (let cur_conn = length h;
          h' = h @ [Connection s t (src_id cs) (dst_id cs) w]
      in ((h', cs\<lparr>connections_map := AList.update t (list_insert pos cur_conn conns) m,
                   conn_count := conn_count cs + 1\<rparr>), cur_conn))"

definition get_or_create_connection ::
  "int \<Rightarrow> int \<Rightarrow> rat \<Rightarrow> 'p connection list \<times> ConnectionSet
     \<Rightarrow> error + (('p connection list \<times> ConnectionSet) \<times> conn_ref)" where
  "get_or_create_connection s t w hc =
     (let (h, cs) = hc;
          (m, conns) = defaultdict_getitem (connections_map cs) t
      in if conns \<noteq> [] then
           (let last_conn = last conns in
            case sgid (h ! last_conn) of
              None \<Rightarrow> Inr ((h, cs\<lparr>connections_map := m\<rparr>), last_conn)
            | Some ls \<Rightarrow>
                if ls = s then Inr ((h, cs\<lparr>connections_map := m\<rparr>), last_conn)
                else if ls < s then Inr (create_and_insert s t w h cs m conns (length conns))
                else (case bin_search conns s (\<lambda>a. sgid (h ! a)) of
                        Inl e \<Rightarrow> Inl e
                      | Inr pos \<Rightarrow>
                          if length conns \<le> pos then Inl IndexError
                          else if sgid (h ! (conns ! pos)) = Some s
                          then Inr ((h, cs\<lparr>connections_map := m\<rparr>), conns ! pos)
                          else Inr (create_and_insert s t w h cs m conns pos)))
         else Inr (create_and_insert s t w h cs m conns 0))"

text \<open>
  \<open>ConnectionSet.store_connection\<close>: stores the existing object \<open>conn\<close>. A connection
  without source id compared with the keys of a non-empty list raises \<open>TypeError\<close>.
\<close>

definition store_connection ::
  "conn_ref \<Rightarrow> 'p connection list \<Rightarrow> ConnectionSet \<Rightarrow> error + ConnectionSet" where
  "store_connection conn h cs =
     (let t = tgid (h ! conn);
          (m, cell_conns) = defaultdict_getitem (connections_map cs) t
      in case (if cell_conns \<noteq> [] then
                 (case sgid (h ! conn) of
                    None \<Rightarrow> Inl TypeError
                  | Some s \<Rightarrow> bin_search cell_conns s (\<lambda>a. sgid (h ! a)))
               else Inr 0) of
           Inl e \<Rightarrow> Inl e
         | Inr pos \<Rightarrow>
             if cell_conns \<noteq> [] \<and> pos < length cell_conns
                \<and> sgid (h ! (cell_conns ! pos)) = sgid (h ! conn)
             then Inr (cs\<lparr>connections_map := m\<rparr>)
             else Inr (cs\<lparr>connections_map := AList.update t (list_insert pos conn cell_conns) m,
                         conn_count := conn_count cs + 1\<rparr>))"

text \<open>\<open>ConnectionSet.delete\<close>: a missing connection is reported and nothing is removed.\<close>

definition delete ::
  "int \<Rightarrow> int \<Rightarrow> 'p connection list \<Rightarrow> ConnectionSet \<Rightarrow> error + ConnectionSet" where
  "delete s t h cs =
     (case find_connection s t True h cs of
        Inl e \<Rightarrow> Inl e
      | Inr (cs', conn_lst, None) \<Rightarrow> Inr cs'
      | Inr (cs', conn_lst, Some idx) \<Rightarrow>
          Inr (cs'\<lparr>conn_count := conn_count cs' - 1,
                   connections_map := AList.update t (list_del idx conn_lst) (connections_map cs')\<rparr>))"

text \<open>A sequence of \<open>get_or_create_connection\<close> calls, each with its (source, target) pair.\<close>

fun get_or_create_calls ::
  "(int \<times> int) list \<Rightarrow> rat \<Rightarrow> 'p connection list \<times> ConnectionSet
     \<Rightarrow> error + ('p connection list \<times> ConnectionSet)" where
  "get_or_create_calls [] w hc = Inr hc"
| "get_or_create_calls ((s, t) # calls) w hc =
     (case get_or_create_connection s t w hc of
        Inl e \<Rightarrow> Inl e
      | Inr (hc', a) \<Rightarrow> get_or_create_calls calls w hc')"

subsection \<open>The ordering invariant\<close>

text \<open>
  The source ids of a target's connections, in list order, and the invariant of a
  ConnectionSet: the keys of the map are distinct, every reference is to an object
  of the store, and every target's connections have a source id and are strictly
  ascending by it.
\<close>

definition sgids_of :: "'p connection list \<Rightarrow> conn_ref list \<Rightarrow> int option list" where
  "sgids_of h conns = map (\<lambda>a. sgid (h ! a)) conns"

definition strictly_sorted_sgids :: "int option list \<Rightarrow> bool" where
  "strictly_sorted_sgids keys =
     (case those keys of None \<Rightarrow> False | Some ks \<Rightarrow> sorted_wrt (<) ks)"

definition target_ok :: "'p connection list \<Rightarrow> conn_ref list \<Rightarrow> bool" where
  "target_ok h conns =
     (list_all (\<lambda>a. a < length h) conns \<and> strictly_sorted_sgids (sgids_of h conns))"

definition cs_inv :: "'p connection list \<Rightarrow> ConnectionSet \<Rightarrow> bool" where
  "cs_inv h cs =
     (distinct (map fst (connections_map cs))
      \<and> list_all (\<lambda>(t, conns). target_ok h conns) (connections_map cs))"

subsection \<open>Bulk deletion\<close>

text \<open>
  A gid selector of the Python code: \<open>None\<close> (all), one integer, or a sequence of
  integers.
\<close>

datatype gids = AllGids | OneGid int | Gids "int list"

text \<open>
  The numpy functions used by the bulk operations. \<open>numpy.fromiter(..., dtype="int64")\<close>
  raises on a \<open>None\<close> and on an integer outside 64 bits. \<open>numpy.searchsorted(a, v)\<close>
  gives, for an ascending array \<open>a\<close> and every \<open>x\<close> of \<open>v\<close>, the leftmost index at
  which \<open>x\<close> can be inserted keeping the order: the number of elements below \<open>x\<close>.
  \<open>numpy.delete(arr, obj)\<close> drops the elements at the indices \<open>obj\<close> and raises
  \<open>IndexError\<close> on an index out of bounds.
\<close>

fun numpy_fromiter_int64 :: "int option list \<Rightarrow> error + int list" where
  "numpy_fromiter_int64 [] = Inr []"
| "numpy_fromiter_int64 (None # xs) = Inl TypeError"
| "numpy_fromiter_int64 (Some k # xs) =
     (if k < - (2 ^ 63) \<or> 2 ^ 63 \<le> k then Inl OverflowError
      else (case numpy_fromiter_int64 xs of
              Inl e \<Rightarrow> Inl e
            | Inr ks \<Rightarrow> Inr (k # ks)))"

definition numpy_searchsorted :: "int list \<Rightarrow> int list \<Rightarrow> nat list" where
  "numpy_searchsorted a v = map (\<lambda>x. length (filter (\<lambda>y. y < x) a)) v"

definition numpy_delete :: "'a list \<Rightarrow> nat list \<Rightarrow> error + 'a list" where
  "numpy_delete arr obj =
     (if list_ex (\<lambda>i. length arr \<le> i) obj then Inl IndexError
      else Inr (map snd (filter (\<lambda>(i, x). i \<notin> set obj) (enumerate 0 arr))))"

text \<open>
  \<open>ConnectionSet._find_connections\<close>, for one target's list: the indices selected by
  the source selector.
\<close>

definition find_connections ::
  "gids \<Rightarrow> 'p connection list \<Rightarrow> conn_ref list \<Rightarrow> error + nat list" where
  "find_connections pre_gids h conns =
     (case pre_gids of
        AllGids \<Rightarrow> Inr [0..<length conns]
      | _ \<Rightarrow>
          (let sgids_interest = (case pre_gids of OneGid s \<Rightarrow> [s] | Gids ss \<Rightarrow> ss | AllGids \<Rightarrow> [])
           in case numpy_fromiter_int64 (map (\<lambda>a. sgid (h ! a)) conns) of
                Inl e \<Rightarrow> Inl e
              | Inr arr \<Rightarrow> Inr (numpy_searchsorted arr sgids_interest)))"

text \<open>
  The targets visited for a target selector: every key of the map, the one target,
  or the given targets in their order.
\<close>

definition post_gid_keys :: "gids \<Rightarrow> ConnectionSet \<Rightarrow> int list" where
  "post_gid_keys post_gids cs =
     (case post_gids of
        AllGids \<Rightarrow> map fst (connections_map cs)
      | OneGid t \<Rightarrow> [t]
      | Gids ts \<Rightarrow> ts)"

text \<open>
  \<open>ConnectionSet.delete_group\<close>: for each visited target the list is replaced by
  the compacted one and the count decreases by the number of indices. An exception
  leaves the set as it is at that moment.
\<close>

fun delete_group_loop ::
  "int list \<Rightarrow> gids \<Rightarrow> 'p connection list \<Rightarrow> ConnectionSet \<Rightarrow> ConnectionSet \<times> error option" where
  "delete_group_loop [] pre_gids h cs = (cs, None)"
| "delete_group_loop (t # ts) pre_gids h cs =
     (let (m, conns) = defaultdict_getitem (connections_map cs) t;
          cs1 = cs\<lparr>connections_map := m\<rparr>
      in case find_connections pre_gids h conns of
           Inl e \<Rightarrow> (cs1, Some e)
         | Inr indices \<Rightarrow>
             (case numpy_delete conns indices of
                Inl e \<Rightarrow> (cs1, Some e)
              | Inr conns' \<Rightarrow>
                  delete_group_loop ts pre_gids h
                    (cs1\<lparr>connections_map := AList.update t conns' m,
                         conn_count := conn_count cs1 - int (length indices)\<rparr>)))"

definition delete_group ::
  "gids \<Rightarrow> gids \<Rightarrow> 'p connection list \<Rightarrow> ConnectionSet \<Rightarrow> ConnectionSet \<times> error option" where
  "delete_group post_gids pre_gids h cs =
     delete_group_loop (post_gid_keys post_gids cs) pre_gids h cs"

section \<open>ConnectionManagerBase\<close>

subsection \<open>Collaborators\<close>

text \<open>
  The collaborators of the manager are outside the sources and are parameters of the
  model. A target of the TargetManager answers membership (\<open>contains\<close>) and
  membership including off-rank cells (\<open>completeContains\<close>).
\<close>

record target =
  tgt_contains :: "int \<Rightarrow> bool"
  completeContains :: "int \<Rightarrow> bool"

text \<open>
  A \<open>Connection\<close> block of the configuration as the manager reads it: \<open>Weight\<close> is
  the number that \<open>valueOf("Weight")\<close> gives.
\<close>

record conn_block =
  Source :: string
  Destination :: string
  Weight :: rat
  Delay :: "rat option"
  CreateMode :: "string option"
  SynapseID :: "int option"

text \<open>
  The environment: \<open>TargetManager.getTarget\<close> and \<open>locationToPoint\<close>, the target name
  of \<open>TargetSpec(name).name\<close>, the result of
  \<open>TargetSpec(source).match_filter(population, src_target, is_base_pop)\<close>, the
  blocks of \<open>SimConfig.connections\<close>, the circuit target of the manager, and the
  truth value that \<open>Connection.finalize\<close> returns, given \<open>sim_corenrn\<close>,
  \<open>attach_src_cell\<close> and the connection.
\<close>

record 'p env =
  getTarget :: "string \<Rightarrow> target"
  locationToPoint :: "int \<Rightarrow> int \<Rightarrow> int \<Rightarrow> rat \<Rightarrow> 'p"
  target_name :: "string \<Rightarrow> string option"
  match_filter :: "string \<Rightarrow> string option \<Rightarrow> string option \<Rightarrow> bool \<Rightarrow> bool"
  connections :: "conn_block list"
  circuit_target :: "target option"
  conn_finalize :: "bool \<Rightarrow> bool \<Rightarrow> 'p connection \<Rightarrow> bool"

subsection \<open>State\<close>

text \<open>
  The manager with the object store of its connections. A ConnectionSet is referred
  to by its key in \<open>populations\<close>; \<open>instantiated\<close> records, in order, the connections
  on which \<open>Connection.finalize\<close> was called.
\<close>

record 'p manager =
  heap :: "'p connection list"
  populations :: "((int \<times> int) \<times> ConnectionSet) list"
  cur_population :: "int \<times> int"
  disabled_conns :: "(int \<times> conn_ref list) list"
  synapse_reader :: "(int \<Rightarrow> synapse_parameters list) option"
  local_gids :: "int list"
  total_connections :: int
  instantiated :: "conn_ref list"

text \<open>\<open>ConnectionManagerBase.__init__\<close>: the default population (0, 0) is the current one.\<close>

definition ConnectionManagerBase_init :: "int list \<Rightarrow> 'p manager" where
  "ConnectionManagerBase_init gids =
     \<lparr>heap = [], populations = [((0, 0), ConnectionSet_init 0 0)], cur_population = (0, 0),
      disabled_conns = [], synapse_reader = None, local_gids = gids,
      total_connections = 0, instantiated = []\<rparr>"

text \<open>\<open>get_population\<close> and \<open>select_populations\<close>.\<close>

definition get_population :: "int \<Rightarrow> int \<Rightarrow> 'p manager \<Rightarrow> 'p manager" where
  "get_population src dst m =
     (case map_of (populations m) (src, dst) of
        Some pop \<Rightarrow> m
      | None \<Rightarrow> m\<lparr>populations := populations m @ [((src, dst), ConnectionSet_init src dst)]\<rparr>)"

definition select_populations :: "int \<Rightarrow> int \<Rightarrow> 'p manager \<Rightarrow> 'p manager" where
  "select_populations src dst m = (get_population src dst m)\<lparr>cur_population := (src, dst)\<rparr>"

definition connection_count :: "'p manager \<Rightarrow> int" where
  "connection_count m = total_connections m"

text \<open>
  A population selector: \<open>None\<close>, a source id, or a pair whose components may be
  \<open>None\<close>. \<open>ConnectionSet.ids_match\<close> and \<open>find_populations\<close>, which gives the keys of
  the selected sets in the order of the dictionary and raises \<open>KeyError\<close> for a
  complete pair that is not a key.
\<close>

datatype population_ids = NoIds | SrcId int | Ids "int option" "int option"

definition ids_match :: "ConnectionSet \<Rightarrow> population_ids \<Rightarrow> bool" where
  "ids_match cs sel =
     (let (expr_src, expr_dst) =
            (case sel of Ids a b \<Rightarrow> (a, b) | SrcId i \<Rightarrow> (Some i, None) | NoIds \<Rightarrow> (None, None))
      in (expr_src = None \<or> expr_src = Some (src_id cs))
         \<and> (expr_dst = None \<or> expr_dst = Some (dst_id cs)))"

definition find_populations :: "population_ids \<Rightarrow> 'p manager \<Rightarrow> error + (int \<times> int) list" where
  "find_populations sel m =
     (case sel of
        Ids (Some a) (Some b) \<Rightarrow>
          (case map_of (populations m) (a, b) of
             None \<Rightarrow> Inl KeyError
           | Some pop \<Rightarrow> Inr [(a, b)])
      | _ \<Rightarrow> Inr (map fst (filter (\<lambda>(k, pop). ids_match pop sel) (populations m))))"

subsection \<open>The streaming iterator\<close>

text \<open>
  \<open>numpy.argmax\<close> of a boolean array: the index of the first \<open>True\<close>, 0 when there is
  none.
\<close>

definition numpy_argmax :: "bool list \<Rightarrow> nat" where
  "numpy_argmax bs = (if list_ex (\<lambda>b. b) bs then length (takeWhile Not bs) else 0)"

text \<open>The end of the group that starts at \<open>cur_i\<close>, as the loop body computes it.\<close>

definition group_end :: "int list \<Rightarrow> nat \<Rightarrow> nat" where
  "group_end sgids cur_i =
     (let s = sgids ! cur_i;
          next_i = numpy_argmax (map (\<lambda>x. x \<noteq> s) (drop cur_i sgids)) + cur_i
      in if cur_i = next_i then length sgids else next_i)"

text \<open>
  The \<open>while\<close> loop of \<open>_iterate_conn_params\<close> over the table of one target: the
  yielded tuples (source gid, target gid, rows of the group, start offset).
\<close>

function iterate_groups ::
  "target option \<Rightarrow> int \<Rightarrow> synapse_parameters list \<Rightarrow> nat
     \<Rightarrow> (int \<times> int \<times> synapse_parameters list \<times> nat) list" where
  "iterate_groups src_target t syns_params cur_i =
     (if cur_i < length syns_params then
        (let sgids = map field0 syns_params;
             s = sgids ! cur_i;
             next_i = group_end sgids cur_i
         in (if (case src_target of None \<Rightarrow> True | Some tg \<Rightarrow> completeContains tg s)
             then [(s, t, take (next_i - cur_i) (drop cur_i syns_params), cur_i)]
             else [])
            @ iterate_groups src_target t syns_params next_i)
      else [])"
  by pat_completeness auto
termination
proof (relation "measure (\<lambda>(src_target, t, syns_params, cur_i). length syns_params - cur_i)")
  show "wf (measure (\<lambda>(src_target, t, syns_params, cur_i). length syns_params - cur_i))"
    by simp
next
  fix src_target :: "target option" and t :: int and syns_params :: "synapse_parameters list"
    and cur_i :: nat and x xa xb
  assume a: "cur_i < length syns_params" "x = map field0 syns_params" "xb = group_end x cur_i"
  then have "cur_i < group_end x cur_i" by (simp add: group_end_def Let_def)
  with a show "((src_target, t, syns_params, xb), (src_target, t, syns_params, cur_i))
       \<in> measure (\<lambda>(src_target, t, syns_params, cur_i). length syns_params - cur_i)"
    by simp
qed

declare iterate_groups.simps [simp del]

text \<open>
  \<open>_iterate_conn_params\<close>: the tuples yielded for the given gids. Without a reader
  the first target that passes the destination filter raises \<open>AttributeError\<close>.
\<close>

definition iterate_conn_params ::
  "target option \<Rightarrow> target option \<Rightarrow> int list \<Rightarrow> (int \<Rightarrow> synapse_parameters list) option
     \<Rightarrow> error + (int \<times> int \<times> synapse_parameters list \<times> nat) list" where
  "iterate_conn_params src_target dst_target gids reader =
     (let tgids = filter (\<lambda>t. case dst_target of None \<Rightarrow> True | Some d \<Rightarrow> tgt_contains d t) gids
      in case reader of
           None \<Rightarrow> if tgids = [] then Inr [] else Inl AttributeError
         | Some get_synapse_parameters \<Rightarrow>
             Inr (concat (map (\<lambda>t. iterate_groups src_target t (get_synapse_parameters t) 0) tgids)))"

subsection \<open>Creating connections\<close>

text \<open>
  Modelled from the spec: \<open>Connection.add_synapse(point, params, id)\<close>, which appends a
  placement to the ordered synapses of the connection.
\<close>

definition add_synapse ::
  "'p \<Rightarrow> synapse_parameters \<Rightarrow> int \<Rightarrow> 'p connection \<Rightarrow> 'p connection" where
  "add_synapse point syn_params syn_id c = c\<lparr>synapses := synapses c @ [(point, syn_params, syn_id)]\<rparr>"

text \<open>\<open>_add_synapses\<close>: the rows of the group, each with its index in the group.\<close>

fun add_synapses_loop ::
  "'p env \<Rightarrow> conn_ref \<Rightarrow> (nat \<times> synapse_parameters) list \<Rightarrow> int option \<Rightarrow> nat
     \<Rightarrow> 'p connection list \<Rightarrow> 'p connection list" where
  "add_synapses_loop env cur_conn [] syn_type_restrict base_id h = h"
| "add_synapses_loop env cur_conn ((i, syn_params) # rest) syn_type_restrict base_id h =
     (if (case syn_type_restrict of None \<Rightarrow> False | Some r \<Rightarrow> r \<noteq> 0 \<and> synType syn_params \<noteq> r)
      then add_synapses_loop env cur_conn rest syn_type_restrict base_id h
      else
        (let point = locationToPoint env (tgid (h ! cur_conn)) (isec syn_params) (ipt syn_params)
                       (offset syn_params)
         in add_synapses_loop env cur_conn rest syn_type_restrict base_id
              (h[cur_conn := add_synapse point syn_params (int base_id + int i) (h ! cur_conn)])))"

definition add_synapses ::
  "'p env \<Rightarrow> conn_ref \<Rightarrow> synapse_parameters list \<Rightarrow> int option \<Rightarrow> nat
     \<Rightarrow> 'p connection list \<Rightarrow> 'p connection list" where
  "add_synapses env cur_conn syns_params syn_type_restrict base_id h =
     add_synapses_loop env cur_conn (enumerate 0 syns_params) syn_type_restrict base_id h"

text \<open>
  The generator of \<open>_iterate_conn_params\<close> ends by adding the connections created in
  the current population to the total. It does so only when the loop that consumes it
  ran to its end.
\<close>

definition count_created :: "int \<Rightarrow> 'p manager \<Rightarrow> 'p manager" where
  "count_created created_conns_0 m =
     (case map_of (populations m) (cur_population m) of
        None \<Rightarrow> m
      | Some pop \<Rightarrow> m\<lparr>total_connections := total_connections m + (count pop - created_conns_0)\<rparr>)"

text \<open>
  The body of the loop of \<open>connect_group\<close> for one yielded tuple: the connection is
  fetched or created in the current population; a locked one is skipped, another one
  receives the synapses and is locked.
\<close>

definition connect_group_body ::
  "'p env \<Rightarrow> int option \<Rightarrow> int \<times> int \<times> synapse_parameters list \<times> nat \<Rightarrow> 'p manager
     \<Rightarrow> 'p manager \<times> error option" where
  "connect_group_body env synapse_type_restrict y m =
     (let (s, t, syns_params, offs) = y in
      case map_of (populations m) (cur_population m) of
        None \<Rightarrow> (m, Some KeyError)
      | Some pop \<Rightarrow>
          (case get_or_create_connection s t 1 (heap m, pop) of
             Inl e \<Rightarrow> (m, Some e)
           | Inr ((h', pop'), cur_conn) \<Rightarrow>
               (let m1 = m\<lparr>heap := h',
                            populations := AList.update (cur_population m) pop' (populations m)\<rparr>
                in if locked (h' ! cur_conn) then (m1, None)
                   else
                     (let h2 = add_synapses env cur_conn syns_params synapse_type_restrict offs h'
                      in (m1\<lparr>heap := h2[cur_conn := (h2 ! cur_conn)\<lparr>locked := True\<rparr>]\<rparr>, None)))))"

fun connect_group_loop ::
  "'p env \<Rightarrow> int option \<Rightarrow> (int \<times> int \<times> synapse_parameters list \<times> nat) list \<Rightarrow> 'p manager
     \<Rightarrow> 'p manager \<times> error option" where
  "connect_group_loop env synapse_type_restrict [] m = (m, None)"
| "connect_group_loop env synapse_type_restrict (y # ys) m =
     (case connect_group_body env synapse_type_restrict y m of
        (m', Some e) \<Rightarrow> (m', Some e)
      | (m', None) \<Rightarrow> connect_group_loop env synapse_type_restrict ys m')"

definition connect_group ::
  "'p env \<Rightarrow> string \<Rightarrow> string \<Rightarrow> int option \<Rightarrow> 'p manager \<Rightarrow> 'p manager \<times> error option" where
  "connect_group env src_target_name dst_target_name synapse_type_restrict m =
     (let src_target = map_option (getTarget env) (target_name env src_target_name);
          dst_target = map_option (getTarget env) (target_name env dst_target_name);
          created_conns_0 = (case map_of (populations m) (cur_population m) of
                               None \<Rightarrow> 0 | Some pop \<Rightarrow> count pop)
      in case iterate_conn_params src_target dst_target (local_gids m) (synapse_reader m) of
           Inl e \<Rightarrow> (m, Some e)
         | Inr ys \<Rightarrow>
             (case connect_group_loop env synapse_type_restrict ys m of
                (m', Some e) \<Rightarrow> (m', Some e)
              | (m', None) \<Rightarrow> (count_created created_conns_0 m', None)))"

text \<open>\<open>connect_all\<close>: every yielded group is attached; no connection is locked.\<close>

definition connect_all_body ::
  "'p env \<Rightarrow> rat \<Rightarrow> int \<times> int \<times> synapse_parameters list \<times> nat \<Rightarrow> 'p manager
     \<Rightarrow> 'p manager \<times> error option" where
  "connect_all_body env weight y m =
     (let (s, t, syns_params, offs) = y in
      case map_of (populations m) (cur_population m) of
        None \<Rightarrow> (m, Some KeyError)
      | Some pop \<Rightarrow>
          (case get_or_create_connection s t weight (heap m, pop) of
             Inl e \<Rightarrow> (m, Some e)
           | Inr ((h', pop'), cur_conn) \<Rightarrow>
               (m\<lparr>heap := add_synapses env cur_conn syns_params None offs h',
                   populations := AList.update (cur_population m) pop' (populations m)\<rparr>, None)))"

fun connect_all_loop ::
  "'p env \<Rightarrow> rat \<Rightarrow> (int \<times> int \<times> synapse_parameters list \<times> nat) list \<Rightarrow> 'p manager
     \<Rightarrow> 'p manager \<times> error option" where
  "connect_all_loop env weight [] m = (m, None)"
| "connect_all_loop env weight (y # ys) m =
     (case connect_all_body env weight y m of
        (m', Some e) \<Rightarrow> (m', Some e)
      | (m', None) \<Rightarrow> connect_all_loop env weight ys m')"

definition connect_all ::
  "'p env \<Rightarrow> rat \<Rightarrow> int list option \<Rightarrow> bool \<Rightarrow> 'p manager \<Rightarrow> 'p manager \<times> error option" where
  "connect_all env weight only_gids only_sgid_in_target m =
     (let gids = (case only_gids of None \<Rightarrow> local_gids m | Some g \<Rightarrow> g);
          src_target_filter = (if only_sgid_in_target then circuit_target env else None);
          created_conns_0 = (case map_of (populations m) (cur_population m) of
                               None \<Rightarrow> 0 | Some pop \<Rightarrow> count pop)
      in case iterate_conn_params src_target_filter None gids (synapse_reader m) of
           Inl e \<Rightarrow> (m, Some e)
         | Inr ys \<Rightarrow>
             (case connect_all_loop env weight ys m of
                (m', Some e) \<Rightarrow> (m', Some e)
              | (m', None) \<Rightarrow> (count_created created_conns_0 m', None)))"

text \<open>
  \<open>create_connections\<close>: the blocks whose source matches the current population are
  connected in their order; delayed blocks and \<open>NoCreate\<close> blocks are passed over.
\<close>

fun create_connections_loop ::
  "'p env \<Rightarrow> conn_block list \<Rightarrow> 'p manager \<Rightarrow> 'p manager \<times> error option" where
  "create_connections_loop env [] m = (m, None)"
| "create_connections_loop env (conn_conf # rest) m =
     (if Delay conn_conf \<noteq> None then create_connections_loop env rest m
      else if CreateMode conn_conf = Some ''NoCreate'' then create_connections_loop env rest m
      else (case connect_group env (Source conn_conf) (Destination conn_conf)
                   (SynapseID conn_conf) m of
              (m', Some e) \<Rightarrow> (m', Some e)
            | (m', None) \<Rightarrow> create_connections_loop env rest m'))"

definition matching_conns :: "'p env \<Rightarrow> string option \<Rightarrow> 'p manager \<Rightarrow> conn_block list" where
  "matching_conns env src_target m =
     (case map_of (populations m) (cur_population m) of
        None \<Rightarrow> []
      | Some pop \<Rightarrow>
          filter (\<lambda>conn. match_filter env (Source conn) (src_name pop) src_target (src_id pop = 0))
            (connections env))"

definition create_connections ::
  "'p env \<Rightarrow> string option \<Rightarrow> 'p manager \<Rightarrow> 'p manager \<times> error option" where
  "create_connections env src_target m =
     (let matching = matching_conns env src_target m
      in if matching = [] then connect_all env 1 None False m
         else if length matching = 1 \<and> Weight (matching ! 0) = 0 then (m, None)
         else create_connections_loop env matching m)"

subsection \<open>Disabling and re-enabling\<close>

text \<open>
  Modelled from the spec: \<open>Connection.disable\<close> and \<open>Connection.enable\<close>, which set and
  clear the disabled flag of the connection. Zeroing the conductances acts on the
  engine's synapse objects, which are not part of the data model.
\<close>

definition Connection_disable :: "bool \<Rightarrow> 'p connection \<Rightarrow> 'p connection" where
  "Connection_disable also_zero_conductance c = c\<lparr>disabled := True\<rparr>"

definition Connection_enable :: "'p connection \<Rightarrow> 'p connection" where
  "Connection_enable c = c\<lparr>disabled := False\<rparr>"

text \<open>
  \<open>ConnectionManagerBase.disable\<close>: for each selected population the connection is
  looked up, disabled and appended to the registry of its target. A lookup that
  gives \<open>None\<close> raises \<open>AttributeError\<close> at the call of its method. The state
  returned with an exception is the state at that moment.
\<close>

fun disable_loop ::
  "int \<Rightarrow> int \<Rightarrow> bool \<Rightarrow> (int \<times> int) list \<Rightarrow> 'p manager \<Rightarrow> 'p manager \<times> error option" where
  "disable_loop s t also_zero_conductance [] m = (m, None)"
| "disable_loop s t also_zero_conductance (k # ks) m =
     (case map_of (populations m) k of
        None \<Rightarrow> (m, Some KeyError)
      | Some pop \<Rightarrow>
          (case get_connection s t (heap m) pop of
             Inl e \<Rightarrow> (m, Some e)
           | Inr (pop', None) \<Rightarrow>
               (m\<lparr>populations := AList.update k pop' (populations m)\<rparr>, Some AttributeError)
           | Inr (pop', Some c) \<Rightarrow>
               (let h' = (heap m)[c := Connection_disable also_zero_conductance (heap m ! c)];
                    (d, lst) = defaultdict_getitem (disabled_conns m) t
                in disable_loop s t also_zero_conductance ks
                     (m\<lparr>heap := h',
                        populations := AList.update k pop' (populations m),
                        disabled_conns := AList.update t (lst @ [c]) d\<rparr>))))"

definition disable ::
  "int \<Rightarrow> int \<Rightarrow> bool \<Rightarrow> population_ids \<Rightarrow> 'p manager \<Rightarrow> 'p manager \<times> error option" where
  "disable s t also_zero_conductance sel m =
     (case find_populations sel m of
        Inl e \<Rightarrow> (m, Some e)
      | Inr ks \<Rightarrow> disable_loop s t also_zero_conductance ks m)"

text \<open>
  \<open>ConnectionManagerBase.reenable\<close>: the registered connections of the target with
  the source id and a population among the selected ones are enabled and taken out
  of the registry.
\<close>

definition allowed_pop_ids :: "(int \<times> int) list \<Rightarrow> 'p manager \<Rightarrow> (int \<times> int) list" where
  "allowed_pop_ids ks m =
     concat (map (\<lambda>k. case map_of (populations m) k of
                          None \<Rightarrow> []
                        | Some p \<Rightarrow> [(src_id p, dst_id p)]) ks)"

fun enable_all :: "conn_ref list \<Rightarrow> 'p connection list \<Rightarrow> 'p connection list" where
  "enable_all [] h = h"
| "enable_all (c # cs) h = enable_all cs (h[c := Connection_enable (h ! c)])"

definition reenable ::
  "int \<Rightarrow> int \<Rightarrow> population_ids \<Rightarrow> 'p manager \<Rightarrow> 'p manager \<times> error option" where
  "reenable s t sel m =
     (case find_populations sel m of
        Inl e \<Rightarrow> (m, Some e)
      | Inr ks \<Rightarrow>
          (let allowed_pops = allowed_pop_ids ks m;
               (d, lst) = defaultdict_getitem (disabled_conns m) t;
               hits = filter (\<lambda>(i, conn). sgid (heap m ! conn) = Some s
                                \<and> population_id (heap m ! conn) \<in> set allowed_pops)
                        (enumerate 0 lst);
               delete_indexes = map fst hits;
               h' = enable_all (map snd hits) (heap m)
           in case numpy_delete lst delete_indexes of
                Inl e \<Rightarrow> (m\<lparr>heap := h', disabled_conns := d\<rparr>, Some e)
              | Inr lst' \<Rightarrow> (m\<lparr>heap := h', disabled_conns := AList.update t lst' d\<rparr>, None)))"

text \<open>\<open>get_disabled\<close> for one target gid.\<close>

definition get_disabled :: "int \<Rightarrow> 'p manager \<Rightarrow> 'p manager \<times> conn_ref list" where
  "get_disabled post_gid m =
     (let (d, lst) = defaultdict_getitem (disabled_conns m) post_gid
      in (m\<lparr>disabled_conns := d\<rparr>, lst))"

subsection \<open>Finalizing\<close>

text \<open>
  \<open>SynapseRuleManager._finalize_conns\<close>: the connections of a target are finalized
  from the last one of the list to the first, and those for which
  \<open>Connection.finalize\<close> returns a true value are counted.
\<close>

fun finalize_each ::
  "'p env \<Rightarrow> bool \<Rightarrow> bool \<Rightarrow> conn_ref list \<Rightarrow> 'p manager \<times> int \<Rightarrow> 'p manager \<times> int" where
  "finalize_each env sim_corenrn attach_src_cell [] mn = mn"
| "finalize_each env sim_corenrn attach_src_cell (conn # rest) (m, n_created_conns) =
     finalize_each env sim_corenrn attach_src_cell rest
       (m\<lparr>instantiated := instantiated m @ [conn]\<rparr>,
        if conn_finalize env sim_corenrn attach_src_cell (heap m ! conn)
        then n_created_conns + 1 else n_created_conns)"

definition finalize_conns ::
  "'p env \<Rightarrow> bool \<Rightarrow> bool \<Rightarrow> int \<Rightarrow> conn_ref list \<Rightarrow> 'p manager \<Rightarrow> 'p manager \<times> int" where
  "finalize_conns env sim_corenrn attach_src_cell t conns m =
     finalize_each env sim_corenrn attach_src_cell (rev conns) (m, 0)"

text \<open>
  The loops of \<open>ConnectionManagerBase.finalize\<close> over the targets of a population and
  over the populations, which give the local count of the rank.
\<close>

fun finalize_items ::
  "'p env \<Rightarrow> bool \<Rightarrow> bool \<Rightarrow> (int \<times> conn_ref list) list \<Rightarrow> 'p manager \<times> int
     \<Rightarrow> 'p manager \<times> int" where
  "finalize_items env sim_corenrn attach_src_cell [] mn = mn"
| "finalize_items env sim_corenrn attach_src_cell ((t, conns) # rest) (m, n_created_conns) =
     (let (m', n) = finalize_conns env sim_corenrn attach_src_cell t conns m
      in finalize_items env sim_corenrn attach_src_cell rest (m', n_created_conns + n))"

fun finalize_populations ::
  "'p env \<Rightarrow> bool \<Rightarrow> ((int \<times> int) \<times> ConnectionSet) list \<Rightarrow> 'p manager \<times> int
     \<Rightarrow> 'p manager \<times> int" where
  "finalize_populations env sim_corenrn [] mn = mn"
| "finalize_populations env sim_corenrn ((popid, pop) # rest) mn =
     (let attach_src_cell = (src_id pop = 0 \<or> (src_name pop = None \<and> sim_corenrn))
      in finalize_populations env sim_corenrn rest
           (finalize_items env sim_corenrn attach_src_cell (connections_map pop) mn))"

definition finalize_local :: "'p env \<Rightarrow> bool \<Rightarrow> 'p manager \<Rightarrow> 'p manager \<times> int" where
  "finalize_local env sim_corenrn m =
     finalize_populations env sim_corenrn (populations m) (m\<lparr>synapse_reader := None\<rparr>, 0)"

text \<open>
  \<open>MPI.allreduce(n, MPI.SUM)\<close> is collective: every rank contributes its value and
  every rank receives the sum. \<open>finalize\<close> is modelled for all the ranks of the run
  together, one manager per rank, each rank returning the total.
\<close>

definition MPI_allreduce_SUM :: "int list \<Rightarrow> int" where
  "MPI_allreduce_SUM contributions = sum_list contributions"

definition finalize :: "'p env \<Rightarrow> bool \<Rightarrow> 'p manager list \<Rightarrow> ('p manager \<times> int) list" where
  "finalize env sim_corenrn ranks =
     (let locals = map (finalize_local env sim_corenrn) ranks;
          all_ranks_total = MPI_allreduce_SUM (map snd locals)
      in map (\<lambda>(m', n_created_conns). (m', all_ranks_total)) locals)"

text \<open>
  The order in which \<open>finalize\<close> visits the connections of a rank as the code
  determines it: population after population, target after target, each list from
  its end. A list holds the connections by ascending source id, so this is by
  descending source id. The reverse of the creation order of the same connections is
  by descending reference.
\<close>

definition visit_order :: "'p manager \<Rightarrow> conn_ref list" where
  "visit_order m =
     concat (map (\<lambda>(popid, pop). concat (map (\<lambda>(t, conns). rev conns) (connections_map pop)))
               (populations m))"

definition reverse_creation_order :: "conn_ref list \<Rightarrow> conn_ref list" where
  "reverse_creation_order conns = rev (sort conns)"

text \<open>
  The count of a rank as the claim words it: the number of connections of the rank
  for which \<open>Connection.finalize\<close> returns a true value, each called with the
  \<open>attach_src_cell\<close> of its population.
\<close>

definition created_count :: "'p env \<Rightarrow> bool \<Rightarrow> 'p manager \<Rightarrow> int" where
  "created_count env sim_corenrn m =
     sum_list
       (map (\<lambda>(popid, pop).
               int (length (filter (\<lambda>a. conn_finalize env sim_corenrn
                                          (src_id pop = 0 \<or> (src_name pop = None \<and> sim_corenrn))
                                          (heap m ! a))
                              (concat (map snd (connections_map pop))))))
          (populations m))"

subsection \<open>Relating the store before and after a locking pass\<close>

text \<open>
  \<open>locks_kept h h'\<close>: the store only grows, an object that is locked in \<open>h\<close> is the
  same in \<open>h'\<close>, and an object that is new or different in \<open>h'\<close> is locked there.
\<close>

definition locks_kept :: "'p connection list \<Rightarrow> 'p connection list \<Rightarrow> bool" where
  "locks_kept h h' =
     (length h \<le> length h'
      \<and> (\<forall>a<length h. locked (h ! a) \<longrightarrow> h' ! a = h ! a)
      \<and> (\<forall>a<length h'. (length h \<le> a \<or> h' ! a \<noteq> h ! a) \<longrightarrow> locked (h' ! a)))"

subsection \<open>Well-formed managers\<close>

text \<open>
  \<open>has_connection s t h cs\<close>: the list of target \<open>t\<close> in \<open>cs\<close> holds a connection with
  source id \<open>s\<close>. A manager is well formed when the keys of its populations are
  distinct, each population satisfies the ordering invariant and is stored under its
  own pair of ids, and each connection of a population carries the ids of that
  population.
\<close>

definition has_connection :: "int \<Rightarrow> int \<Rightarrow> 'p connection list \<Rightarrow> ConnectionSet \<Rightarrow> bool" where
  "has_connection s t h cs =
     (case map_of (connections_map cs) t of
        None \<Rightarrow> False
      | Some conns \<Rightarrow> Some s \<in> set (sgids_of h conns))"

definition mgr_inv :: "'p manager \<Rightarrow> bool" where
  "mgr_inv m =
     (distinct (map fst (populations m))
      \<and> list_all (\<lambda>(k, pop). cs_inv (heap m) pop \<and> k = (src_id pop, dst_id pop)
                     \<and> list_all (\<lambda>(t, conns). list_all (\<lambda>a. population_id (heap m ! a) = k) conns)
                           (connections_map pop))
           (populations m))"

text \<open>
  The connections with source id \<open>s\<close> of target \<open>t\<close> in the populations with the
  keys \<open>ks\<close>, in the order of the keys.
\<close>

definition selected_refs :: "int \<Rightarrow> int \<Rightarrow> (int \<times> int) list \<Rightarrow> 'p manager \<Rightarrow> conn_ref list" where
  "selected_refs s t ks m =
     concat (map (\<lambda>k. case map_of (populations m) k of
                          None \<Rightarrow> []
                        | Some pop \<Rightarrow>
                            (case map_of (connections_map pop) t of
                               None \<Rightarrow> []
                             | Some conns \<Rightarrow> filter (\<lambda>a. sgid (heap m ! a) = Some s) conns)) ks)"

section \<open>A small circuit\<close>

text \<open>
  One local cell, gid 1, whose table has the source ids 3, 3, 3, 5, 5, 7. Target
  \<open>A\<close> holds the cells 5 and 7, target \<open>B\<close> the cell 3, any other name is a target
  of all cells. Of the two \<open>Connection\<close> blocks only the second one has a source
  that matches the population, and its weight is zero.
\<close>

definition example_rows :: "synapse_parameters list" where
  "example_rows =
     map (\<lambda>(s, ty). \<lparr>field0 = s, synType = ty, isec = 0, ipt = 0, offset = 0\<rparr>)
       [(3, 1), (3, 1), (3, 2), (5, 1), (5, 1), (7, 1)]"

definition example_reader :: "int \<Rightarrow> synapse_parameters list" where
  "example_reader t = (if t = 1 then example_rows else [])"

definition example_env :: "unit env" where
  "example_env =
     \<lparr>getTarget = (\<lambda>name.
         if name = ''A'' then \<lparr>tgt_contains = (\<lambda>g. False), completeContains = (\<lambda>g. g = 5 \<or> g = 7)\<rparr>
         else if name = ''B'' then \<lparr>tgt_contains = (\<lambda>g. False), completeContains = (\<lambda>g. g = 3)\<rparr>
         else \<lparr>tgt_contains = (\<lambda>g. True), completeContains = (\<lambda>g. True)\<rparr>),
      locationToPoint = (\<lambda>t sec pt offs. ()),
      target_name = (\<lambda>name. if name = [] then None else Some name),
      match_filter = (\<lambda>source pop src_target is_base_pop. source = ''A''),
      connections =
        [\<lparr>Source = ''All'', Destination = ''All'', Weight = 2, Delay = None,
          CreateMode = None, SynapseID = None\<rparr>,
         \<lparr>Source = ''A'', Destination = ''B'', Weight = 0, Delay = None,
          CreateMode = None, SynapseID = None\<rparr>],
      circuit_target = None,
      conn_finalize = (\<lambda>sim_corenrn attach_src_cell c. True)\<rparr>"

definition example_manager :: "unit manager" where
  "example_manager = (ConnectionManagerBase_init [1])\<lparr>synapse_reader := Some example_reader\<rparr>"

text \<open>
  The manager after the pathway \<open>A\<close> to all cells and then the pathway \<open>B\<close> to all
  cells have been connected: the connections (5,1) and (7,1) were created first, the
  connection (3,1) last.
\<close>

definition example_connected :: "unit manager" where
  "example_connected =
     fst (connect_group example_env ''B'' ''All'' None
            (fst (connect_group example_env ''A'' ''All'' None example_manager)))"

text \<open>A rank with the four connections (3,1), (5,1), (5,2) and (7,2).\<close>

definition example_rank0 :: "unit manager" where
  "example_rank0 =
     (ConnectionManagerBase_init [1, 2])
       \<lparr>heap := [Connection 3 1 0 0 1, Connection 5 1 0 0 1, Connection 5 2 0 0 1,
                 Connection 7 2 0 0 1],
        populations := [((0, 0), (ConnectionSet_init 0 0)
                           \<lparr>connections_map := [(1, [0, 1]), (2, [2, 3])], conn_count := 4\<rparr>)],
        total_connections := 4\<rparr>"

text \<open>
  The same manager after a second population, with source population id 5, has been
  selected once: that population has no connection.
\<close>

definition example_two_populations :: "unit manager" where
  "example_two_populations = get_population 5 0 example_connected"

text \<open>
  The manager after the population (5, 0) has been selected, the pathway \<open>A\<close> to all
  cells connected in it, and its connection (5,1) disabled: the registry of cell 1
  holds that connection, which is not one of the population (0, 0).
\<close>

definition example_registered :: "unit manager" where
  "example_registered =
     fst (disable 5 1 False (SrcId 5)
            (fst (connect_group example_env ''A'' ''All'' None
                    (select_populations 5 0 example_connected))))"

section \<open>Properties of the binary search and of ConnectionSet\<close>


lemma bin_search_loop_sorted:
  assumes "sorted ks" "lo \<le> hi" "hi \<le> length ks"
    and "\<forall>i<lo. ks ! i < key" and "\<forall>i. hi \<le> i \<and> i < length ks \<longrightarrow> key \<le> ks ! i"
  shows "\<exists>p. bin_search_loop (map Some ks) key lo hi = Inr p \<and> lo \<le> p \<and> p \<le> hi
            \<and> (\<forall>i<p. ks ! i < key) \<and> (\<forall>i. p \<le> i \<and> i < length ks \<longrightarrow> key \<le> ks ! i)"
  using assms
proof (induction "hi - lo" arbitrary: lo hi rule: less_induct)
  case less
  show ?case
  proof (cases "lo < hi")
    case False
    with less.prems have "lo = hi" by simp
    with less.prems show ?thesis by (simp add: bin_search_loop.simps)
  next
    case True
    define mid where "mid = (lo + hi) div 2"
    have mid: "lo \<le> mid" "mid < hi" using True by (simp_all add: mid_def)
    with less.prems have midlen: "mid < length ks" by simp
    show ?thesis
    proof (cases "ks ! mid < key")
      case lt: True
      have low: "\<forall>i<mid + 1. ks ! i < key"
      proof (intro allI impI)
        fix i assume "i < mid + 1"
        then have "i \<le> mid" by simp
        with \<open>sorted ks\<close> midlen have "ks ! i \<le> ks ! mid" by (simp add: sorted_nth_mono)
        with lt show "ks ! i < key" by simp
      qed
      have "hi - (mid + 1) < hi - lo" using mid by simp
      from less.hyps[OF this \<open>sorted ks\<close> _ \<open>hi \<le> length ks\<close> low less.prems(5)] mid
      obtain p where p: "bin_search_loop (map Some ks) key (mid + 1) hi = Inr p" "mid + 1 \<le> p" "p \<le> hi"
        "\<forall>i<p. ks ! i < key" "\<forall>i. p \<le> i \<and> i < length ks \<longrightarrow> key \<le> ks ! i" by auto
      have "bin_search_loop (map Some ks) key lo hi = Inr p"
        using True lt midlen p(1) by (subst bin_search_loop.simps) (simp add: mid_def[symmetric] Let_def)
      with p mid show ?thesis by auto
    next
      case ge: False
      have high: "\<forall>i. mid \<le> i \<and> i < length ks \<longrightarrow> key \<le> ks ! i"
      proof (intro allI impI)
        fix i assume "mid \<le> i \<and> i < length ks"
        with \<open>sorted ks\<close> have "ks ! mid \<le> ks ! i" by (simp add: sorted_nth_mono)
        with ge show "key \<le> ks ! i" by simp
      qed
      have "mid - lo < hi - lo" using mid by simp
      from less.hyps[OF this \<open>sorted ks\<close> mid(1) _ less.prems(4) high] midlen
      obtain p where p: "bin_search_loop (map Some ks) key lo mid = Inr p" "lo \<le> p" "p \<le> mid"
        "\<forall>i<p. ks ! i < key" "\<forall>i. p \<le> i \<and> i < length ks \<longrightarrow> key \<le> ks ! i" by auto
      have "bin_search_loop (map Some ks) key lo hi = Inr p"
        using True ge midlen p(1) by (subst bin_search_loop.simps) (simp add: mid_def[symmetric] Let_def)
      with p mid show ?thesis by auto
    qed
  qed
qed

lemma bin_search_sorted:
  assumes "map keyf xs = map Some ks" and "sorted ks"
  shows "\<exists>p. bin_search xs key keyf = Inr p \<and> p \<le> length ks
            \<and> (\<forall>i<p. ks ! i < key) \<and> (\<forall>i. p \<le> i \<and> i < length ks \<longrightarrow> key \<le> ks ! i)"
proof -
  have len: "length xs = length ks" using assms(1) by (metis length_map)
  from bin_search_loop_sorted[OF assms(2), of 0 "length ks" key]
  show ?thesis by (auto simp: bin_search_def assms(1) len)
qed

lemma strict_sorted_insert:
  assumes "sorted_wrt (<) (ks :: int list)" and "p \<le> length ks"
    and "\<forall>i<p. ks ! i < key" and "\<forall>i. p \<le> i \<and> i < length ks \<longrightarrow> key \<le> ks ! i"
    and "p = length ks \<or> ks ! p \<noteq> key"
  shows "sorted_wrt (<) (take p ks @ key # drop p ks)"
proof -
  have a: "sorted_wrt (<) (take p ks)" "sorted_wrt (<) (drop p ks)"
    using assms(1) by (simp_all add: sorted_wrt_take sorted_wrt_drop)
  have b: "\<forall>x\<in>set (take p ks). x < key"
    using assms(2,3) by (auto simp: in_set_conv_nth)
  have c: "\<forall>y\<in>set (drop p ks). key < y"
  proof
    fix y assume "y \<in> set (drop p ks)"
    then obtain j where j: "j < length ks - p" "y = ks ! (p + j)"
      by (auto simp: in_set_conv_nth)
    then have pl: "p < length ks" by simp
    with assms(5) have ne: "ks ! p \<noteq> key" by simp
    from assms(4) pl have "key \<le> ks ! p" by simp
    with ne have lt: "key < ks ! p" by simp
    have "ks ! p \<le> ks ! (p + j)"
      using assms(1) j(1) by (simp add: sorted_nth_mono strict_sorted_iff)
    with lt j(2) show "key < y" by simp
  qed
  have d: "\<forall>x\<in>set (take p ks). \<forall>y\<in>set (drop p ks). x < y"
    using b c by force
  show ?thesis using a b c d by (auto simp: sorted_wrt_append)
qed


lemma those_eq_Some: "those keys = Some ks \<longleftrightarrow> keys = map Some ks"
proof (induction keys arbitrary: ks)
  case Nil
  then show ?case by auto
next
  case (Cons k keys)
  then show ?case by (cases k; cases ks) (auto split: option.splits)
qed

lemma strictly_sorted_sgids_iff:
  "strictly_sorted_sgids keys \<longleftrightarrow> (\<exists>ks. keys = map Some ks \<and> sorted_wrt (<) ks)"
  by (auto simp: strictly_sorted_sgids_def those_eq_Some split: option.splits)
     (metis not_Some_eq those_eq_Some)

lemma sgids_of_append_heap:
  "list_all (\<lambda>a. a < length h) conns \<Longrightarrow> sgids_of (h @ h') conns = sgids_of h conns"
  by (auto simp: sgids_of_def list_all_iff nth_append)

lemma target_ok_append_heap: "target_ok h conns \<Longrightarrow> target_ok (h @ h') conns"
  by (auto simp: target_ok_def sgids_of_append_heap) (auto simp: list_all_iff)

lemma list_all_alist_update:
  "list_all P m \<Longrightarrow> P (k, v) \<Longrightarrow> list_all P (AList.update k v m)"
  by (induction m) auto

lemma cs_inv_lookup:
  "cs_inv h cs \<Longrightarrow> map_of (connections_map cs) t = Some conns \<Longrightarrow> target_ok h conns"
  by (auto simp: cs_inv_def list_all_iff dest!: map_of_SomeD)

lemma target_ok_Nil: "target_ok h []"
  by (simp add: target_ok_def strictly_sorted_sgids_def sgids_of_def)

lemma defaultdict_getitem_cases:
  "defaultdict_getitem d k = (m, v) \<Longrightarrow>
     (map_of d k = Some v \<and> m = d) \<or> (map_of d k = None \<and> m = d @ [(k, [])] \<and> v = [])"
  by (auto simp: defaultdict_getitem_def split: option.splits)

lemma cs_inv_getitem:
  assumes "cs_inv h cs" and "defaultdict_getitem (connections_map cs) t = (m, conns)"
  shows "cs_inv h (cs\<lparr>connections_map := m\<rparr>) \<and> target_ok h conns \<and> map_of m t = Some conns"
proof -
  from defaultdict_getitem_cases[OF assms(2)]
  show ?thesis
  proof
    assume "map_of (connections_map cs) t = Some conns \<and> m = connections_map cs"
    with assms(1) show ?thesis by (auto simp: cs_inv_lookup)
  next
    assume a: "map_of (connections_map cs) t = None \<and> m = connections_map cs @ [(t, [])] \<and> conns = []"
    then have "t \<notin> fst ` set (connections_map cs)" by (simp add: map_of_eq_None_iff)
    with a assms(1) show ?thesis
      by (auto simp: cs_inv_def target_ok_Nil map_add_def split: option.splits)
  qed
qed

text \<open>The state after creating a connection at a sorted insertion index.\<close>

lemma create_and_insert_inv:
  assumes inv: "cs_inv h (cs\<lparr>connections_map := m\<rparr>)" and ok: "target_ok h conns"
    and look: "map_of m t = Some conns"
    and keys: "sgids_of h conns = map Some ks"
    and pos: "pos \<le> length ks" "\<forall>i<pos. ks ! i < s"
             "\<forall>i. pos \<le> i \<and> i < length ks \<longrightarrow> s \<le> ks ! i" "pos = length ks \<or> ks ! pos \<noteq> s"
    and res: "create_and_insert s t w h cs m conns pos = ((h', cs'), a)"
  shows "cs_inv h' cs' \<and> map_of (connections_map cs') t = Some (list_insert pos a conns)
         \<and> pos < length (list_insert pos a conns) \<and> list_insert pos a conns ! pos = a
         \<and> sgid (h' ! a) = Some s \<and> a = length h \<and> h' = h @ [Connection s t (src_id cs) (dst_id cs) w]
         \<and> conn_count cs' = conn_count cs + 1"
proof -
  from res have h': "h' = h @ [Connection s t (src_id cs) (dst_id cs) w]" and a: "a = length h"
    and cs': "cs' = cs\<lparr>connections_map := AList.update t (list_insert pos a conns) m,
                        conn_count := conn_count cs + 1\<rparr>"
    by (auto simp: create_and_insert_def Let_def)
  have len: "length conns = length ks" using keys by (metis length_map sgids_of_def)
  from ok keys have srt: "sorted_wrt (<) ks"
    by (auto simp: target_ok_def strictly_sorted_sgids_iff)
  have valid: "list_all (\<lambda>a. a < length h) conns" using ok by (simp add: target_ok_def)
  have sg: "sgid (h' ! a) = Some s" by (simp add: h' a Connection_def)
  have keys': "sgids_of h' (list_insert pos a conns) = map Some (take pos ks @ s # drop pos ks)"
  proof -
    have "sgids_of h' conns = map Some ks"
      using keys valid by (simp add: h' sgids_of_append_heap)
    then have "sgids_of h' (take pos conns) = map Some (take pos ks)"
      "sgids_of h' (drop pos conns) = map Some (drop pos ks)"
      by (simp_all add: sgids_of_def take_map[symmetric] drop_map[symmetric])
    then show ?thesis using sg by (simp add: list_insert_def sgids_of_def)
  qed
  have "sorted_wrt (<) (take pos ks @ s # drop pos ks)"
    using strict_sorted_insert[OF srt pos] .
  with keys' have sorted': "strictly_sorted_sgids (sgids_of h' (list_insert pos a conns))"
    unfolding strictly_sorted_sgids_iff by blast
  have valid': "list_all (\<lambda>a. a < length h') (list_insert pos a conns)"
    using valid by (auto simp: list_insert_def list_all_iff h' a dest!: in_set_takeD in_set_dropD intro: less_SucI)
  have tok: "target_ok h' (list_insert pos a conns)"
    using sorted' valid' by (simp add: target_ok_def)
  have all_old: "list_all (\<lambda>(t, conns). target_ok h' conns) m"
    using inv by (auto simp: cs_inv_def list_all_iff h' intro: target_ok_append_heap)
  have "cs_inv h' cs'"
    using inv tok all_old
    by (auto simp: cs_inv_def cs' AList.distinct_update intro: list_all_alist_update)
  moreover have "map_of (connections_map cs') t = Some (list_insert pos a conns)"
    by (simp add: cs' AList.update_conv')
  moreover have "pos < length (list_insert pos a conns)" "list_insert pos a conns ! pos = a"
    using pos(1) len by (simp_all add: list_insert_def nth_append)
  ultimately show ?thesis using sg a h' cs' by simp
qed

text \<open>A call for a pair that is stored returns the stored object and changes nothing.\<close>

lemma get_or_create_found:
  assumes inv: "cs_inv h cs" and look: "map_of (connections_map cs) t = Some conns"
    and i: "i < length conns" and sg: "sgid (h ! (conns ! i)) = Some s"
  shows "get_or_create_connection s t w (h, cs) = Inr ((h, cs), conns ! i)"
proof -
  have get: "defaultdict_getitem (connections_map cs) t = (connections_map cs, conns)"
    using look by (simp add: defaultdict_getitem_def)
  have ne: "conns \<noteq> []" using i by auto
  from cs_inv_lookup[OF inv look] obtain ks where keys: "sgids_of h conns = map Some ks"
    and srt: "sorted_wrt (<) ks"
    by (auto simp: target_ok_def strictly_sorted_sgids_iff)
  have len: "length conns = length ks" using keys by (metis length_map sgids_of_def)
  have nth: "\<And>j. j < length conns \<Longrightarrow> sgid (h ! (conns ! j)) = Some (ks ! j)"
  proof -
    fix j assume j: "j < length conns"
    then have "sgids_of h conns ! j = sgid (h ! (conns ! j))" by (simp add: sgids_of_def)
    with keys j len show "sgid (h ! (conns ! j)) = Some (ks ! j)" by simp
  qed
  have ksi: "ks ! i = s" using nth[OF i] sg by simp
  have dist: "distinct ks" and sorted: "sorted ks" using srt by (simp_all add: strict_sorted_iff)
  have lastc: "last conns = conns ! (length conns - 1)" using ne by (simp add: last_conv_nth)
  have "length conns - 1 < length conns" using ne by simp
  from nth[OF this] have lastk: "sgid (h ! last conns) = Some (ks ! (length ks - 1))"
    using lastc len by simp
  show ?thesis
  proof (cases "ks ! (length ks - 1) = s")
    case True
    with ksi dist i len have "i = length ks - 1"
      by (metis diff_less length_greater_0_conv less_numeral_extra(1) ne nth_eq_iff_index_eq length_0_conv)
    with lastc len have "last conns = conns ! i" by simp
    with True lastk show ?thesis
      by (simp add: get_or_create_connection_def get ne Let_def)
  next
    case False
    have "ks ! i \<le> ks ! (length ks - 1)"
      using sorted i len by (simp add: sorted_nth_mono)
    with ksi False have gt: "\<not> ks ! (length ks - 1) < s" by simp
    from bin_search_sorted[of "\<lambda>a. sgid (h ! a)" conns ks s] keys sorted
    obtain p where p: "bin_search conns s (\<lambda>a. sgid (h ! a)) = Inr p" "p \<le> length ks"
      "\<forall>j<p. ks ! j < s" "\<forall>j. p \<le> j \<and> j < length ks \<longrightarrow> s \<le> ks ! j"
      by (auto simp: sgids_of_def)
    have "\<not> i < p" using p(3) ksi by auto
    moreover have "\<not> p < i"
    proof
      assume "p < i"
      with srt i len have "ks ! p < ks ! i" by (simp add: sorted_wrt_nth_less)
      moreover from \<open>p < i\<close> i len p(4) have "s \<le> ks ! p" by simp
      ultimately show False using ksi by simp
    qed
    ultimately have "p = i" by simp
    with p(1) i sg False gt lastk show ?thesis
      by (simp add: get_or_create_connection_def get ne Let_def)
  qed
qed


lemma has_connection_iff:
  "has_connection s t h cs \<longleftrightarrow>
     (\<exists>conns i. map_of (connections_map cs) t = Some conns \<and> i < length conns
                 \<and> sgid (h ! (conns ! i)) = Some s)"
proof
  assume "has_connection s t h cs"
  then show "\<exists>conns i. map_of (connections_map cs) t = Some conns \<and> i < length conns
                 \<and> sgid (h ! (conns ! i)) = Some s"
    by (auto simp: has_connection_def sgids_of_def in_set_conv_nth split: option.splits)
next
  assume "\<exists>conns i. map_of (connections_map cs) t = Some conns \<and> i < length conns
                 \<and> sgid (h ! (conns ! i)) = Some s"
  then obtain conns i where c: "map_of (connections_map cs) t = Some conns" "i < length conns"
    "sgid (h ! (conns ! i)) = Some s" by blast
  from c(2) have "conns ! i \<in> set conns" by simp
  with c(3) have "Some s \<in> set (sgids_of h conns)" by (force simp: sgids_of_def)
  with c(1) show "has_connection s t h cs" by (simp add: has_connection_def)
qed

text \<open>
  Every call under the invariant returns, keeps the invariant and returns an object of
  the list of the target with the source id: the stored one, with nothing changed,
  when the pair is stored, and else a new object, counted once.
\<close>

lemma get_or_create_result:
  assumes inv: "cs_inv h cs"
  shows "\<exists>h' cs' a conns' i.
           get_or_create_connection s t w (h, cs) = Inr ((h', cs'), a)
           \<and> cs_inv h' cs' \<and> map_of (connections_map cs') t = Some conns'
           \<and> i < length conns' \<and> conns' ! i = a \<and> sgid (h' ! a) = Some s
           \<and> a < length h'
           \<and> (if has_connection s t h cs then h' = h \<and> cs' = cs
               else h' = h @ [Connection s t (src_id cs) (dst_id cs) w] \<and> a = length h
                    \<and> conn_count cs' = conn_count cs + 1)"
proof -
  obtain m conns where get: "defaultdict_getitem (connections_map cs) t = (m, conns)"
    by (cases "defaultdict_getitem (connections_map cs) t")
  from cs_inv_getitem[OF inv get]
  have invm: "cs_inv h (cs\<lparr>connections_map := m\<rparr>)" and ok: "target_ok h conns"
    and look: "map_of m t = Some conns" by simp_all
  from ok obtain ks where keys: "sgids_of h conns = map Some ks" and srt: "sorted_wrt (<) ks"
    by (auto simp: target_ok_def strictly_sorted_sgids_iff)
  have len: "length conns = length ks" using keys by (metis length_map sgids_of_def)
  have sorted: "sorted ks" using srt by (simp add: strict_sorted_iff)
  have nth: "\<And>j. j < length conns \<Longrightarrow> sgid (h ! (conns ! j)) = Some (ks ! j)"
  proof -
    fix j assume j: "j < length conns"
    then have "sgids_of h conns ! j = sgid (h ! (conns ! j))" by (simp add: sgids_of_def)
    with keys j len show "sgid (h ! (conns ! j)) = Some (ks ! j)" by simp
  qed
  show ?thesis
  proof (cases "\<exists>i<length conns. sgid (h ! (conns ! i)) = Some s")
    case True
    then obtain i where i: "i < length conns" "sgid (h ! (conns ! i)) = Some s" by blast
    then have "conns \<noteq> []" by auto
    with get have m: "m = connections_map cs"
      by (auto simp: defaultdict_getitem_def split: option.splits)
    have hc: "has_connection s t h cs"
      using look[unfolded m] i by (auto simp: has_connection_iff)
    from i(1) have "conns ! i \<in> set conns" by simp
    with ok have valid: "conns ! i < length h" by (simp add: target_ok_def list_all_iff)
    from get_or_create_found[OF inv look[unfolded m] i, of w]
    show ?thesis using inv look[unfolded m] i hc valid
      by (intro exI[of _ h] exI[of _ cs] exI[of _ "conns ! i"] exI[of _ conns] exI[of _ i]) simp
  next
    case notin: False
    have nhc: "\<not> has_connection s t h cs"
    proof
      assume "has_connection s t h cs"
      then obtain conns0 i0 where c0: "map_of (connections_map cs) t = Some conns0"
        "i0 < length conns0" "sgid (h ! (conns0 ! i0)) = Some s"
        by (auto simp: has_connection_iff)
      from defaultdict_getitem_cases[OF get] c0(1) have "conns0 = conns" by auto
      with c0 notin show False by blast
    qed
    have created: "\<exists>pos. get_or_create_connection s t w (h, cs)
                      = Inr (create_and_insert s t w h cs m conns pos)
               \<and> pos \<le> length ks \<and> (\<forall>i<pos. ks ! i < s)
               \<and> (\<forall>i. pos \<le> i \<and> i < length ks \<longrightarrow> s \<le> ks ! i)
               \<and> (pos = length ks \<or> ks ! pos \<noteq> s)"
    proof (cases "conns = []")
      case True
      with len get show ?thesis
        by (intro exI[of _ 0]) (simp add: get_or_create_connection_def)
    next
      case ne: False
      have lastc: "last conns = conns ! (length conns - 1)" using ne by (simp add: last_conv_nth)
      have l1: "length conns - 1 < length conns" using ne by simp
      from nth[OF this] have lastk: "sgid (h ! last conns) = Some (ks ! (length ks - 1))"
        using lastc len by simp
      from notin l1 lastc have nes: "ks ! (length ks - 1) \<noteq> s"
        using lastk by (metis option.inject)
      show ?thesis
      proof (cases "ks ! (length ks - 1) < s")
        case True
        have "\<forall>i<length ks. ks ! i < s"
        proof (intro allI impI)
          fix i assume "i < length ks"
          then have "ks ! i \<le> ks ! (length ks - 1)" using sorted by (simp add: sorted_nth_mono)
          with True show "ks ! i < s" by simp
        qed
        then show ?thesis using True nes lastk ne get len
          by (intro exI[of _ "length ks"]) (simp add: get_or_create_connection_def Let_def)
      next
        case False
        from bin_search_sorted[of "\<lambda>a. sgid (h ! a)" conns ks s] keys sorted
        obtain p where p: "bin_search conns s (\<lambda>a. sgid (h ! a)) = Inr p" "p \<le> length ks"
          "\<forall>j<p. ks ! j < s" "\<forall>j. p \<le> j \<and> j < length ks \<longrightarrow> s \<le> ks ! j"
          by (auto simp: sgids_of_def)
        have plt: "p < length ks"
        proof (rule ccontr)
          assume "\<not> p < length ks"
          with p(2) have "p = length ks" by simp
          with p(3) l1 len have "ks ! (length ks - 1) < s" by simp
          with False show False by simp
        qed
        with notin nth[of p] len have pne: "sgid (h ! (conns ! p)) \<noteq> Some s" by auto
        with nth[of p] plt len have "ks ! p \<noteq> s" by auto
        with p plt pne False nes lastk ne get len show ?thesis
          by (intro exI[of _ p]) (simp add: get_or_create_connection_def Let_def)
      qed
    qed
    then obtain pos where pos: "get_or_create_connection s t w (h, cs)
                      = Inr (create_and_insert s t w h cs m conns pos)"
       "pos \<le> length ks" "\<forall>i<pos. ks ! i < s"
       "\<forall>i. pos \<le> i \<and> i < length ks \<longrightarrow> s \<le> ks ! i" "pos = length ks \<or> ks ! pos \<noteq> s"
      by blast
    obtain h' cs' a where res: "create_and_insert s t w h cs m conns pos = ((h', cs'), a)"
      by (metis surj_pair)
    from create_and_insert_inv[OF invm ok look keys pos(2-5) res]
    have r: "cs_inv h' cs'" "map_of (connections_map cs') t = Some (list_insert pos a conns)"
      "pos < length (list_insert pos a conns)" "list_insert pos a conns ! pos = a"
      "sgid (h' ! a) = Some s" "a = length h"
      "h' = h @ [Connection s t (src_id cs) (dst_id cs) w]"
      "conn_count cs' = conn_count cs + 1" by blast+
    from pos(1) res r nhc show ?thesis
      by (intro exI[of _ h'] exI[of _ cs'] exI[of _ a] exI[of _ "list_insert pos a conns"]
          exI[of _ pos]) simp
  qed
qed

lemma get_or_create_inv:
  assumes inv: "cs_inv h cs"
  shows "\<exists>h' cs' a conns' i.
           get_or_create_connection s t w (h, cs) = Inr ((h', cs'), a)
           \<and> cs_inv h' cs' \<and> map_of (connections_map cs') t = Some conns'
           \<and> i < length conns' \<and> conns' ! i = a \<and> sgid (h' ! a) = Some s"
  using get_or_create_result[OF inv, of s t w] by blast

lemma get_or_create_calls_inv:
  "cs_inv h cs \<Longrightarrow> \<exists>h' cs'. get_or_create_calls calls w (h, cs) = Inr (h', cs') \<and> cs_inv h' cs'"
proof (induction calls arbitrary: h cs)
  case Nil
  then show ?case by simp
next
  case (Cons c calls)
  obtain s t where c: "c = (s, t)" by (cases c)
  from get_or_create_inv[OF Cons.prems, of s t w]
  obtain h1 cs1 a where 1: "get_or_create_connection s t w (h, cs) = Inr ((h1, cs1), a)"
    "cs_inv h1 cs1" by blast
  from Cons.IH[OF 1(2)] 1(1) c show ?case by simp
qed

lemma cs_inv_sorted:
  assumes "cs_inv h cs" and "(t, conns) \<in> set (connections_map cs)"
  shows "strictly_sorted_sgids (sgids_of h conns) \<and> distinct (sgids_of h conns)"
proof -
  from assms have "target_ok h conns" by (auto simp: cs_inv_def list_all_iff)
  then obtain ks where "sgids_of h conns = map Some ks" "sorted_wrt (<) ks"
    by (auto simp: target_ok_def strictly_sorted_sgids_iff)
  then show ?thesis
    by (auto simp: strictly_sorted_sgids_iff strict_sorted_iff distinct_map)
qed

lemma cs_inv_init: "cs_inv [] (ConnectionSet_init src dst)"
  by (simp add: cs_inv_def ConnectionSet_init_def)


text \<open>
  Claim C1. From a ConnectionSet that satisfies the invariant (a new one does), after
  every prefix of every sequence of \<open>get_or_create_connection\<close> calls with integer
  source ids in any order, the calls have all returned and each target's connections
  are strictly ascending by source id, with no source id twice.
\<close>

theorem C1_get_or_create_sorted:
  assumes "cs_inv h cs"
  shows "\<forall>n\<le>length calls. \<exists>h' cs'.
           get_or_create_calls (take n calls) w (h, cs) = Inr (h', cs')
           \<and> (\<forall>(t, conns)\<in>set (connections_map cs').
                 strictly_sorted_sgids (sgids_of h' conns) \<and> distinct (sgids_of h' conns))"
proof (intro allI impI)
  fix n assume "n \<le> length calls"
  from get_or_create_calls_inv[OF assms, of "take n calls" w]
  obtain h' cs' where r: "get_or_create_calls (take n calls) w (h, cs) = Inr (h', cs')"
    "cs_inv h' cs'" by blast
  with cs_inv_sorted[OF r(2)]
  show "\<exists>h' cs'. get_or_create_calls (take n calls) w (h, cs) = Inr (h', cs')
           \<and> (\<forall>(t, conns)\<in>set (connections_map cs').
                 strictly_sorted_sgids (sgids_of h' conns) \<and> distinct (sgids_of h' conns))"
    by blast
qed

theorem C1_get_or_create_sorted_witness:
  "cs_inv ([] :: unit connection list) (ConnectionSet_init 0 0)
   \<and> (\<exists>h' cs'.
         get_or_create_calls (take 5 [(5, 1), (3, 1), (5, 1), (4, 2), (4, 1)]) 1
            ([] :: unit connection list, ConnectionSet_init 0 0) = Inr (h', cs')
         \<and> (\<forall>(t, conns)\<in>set (connections_map cs').
               strictly_sorted_sgids (sgids_of h' conns) \<and> distinct (sgids_of h' conns)))"
proof -
  have h: "cs_inv ([] :: unit connection list) (ConnectionSet_init 0 0)"
    by (simp add: cs_inv_def ConnectionSet_init_def)
  have "5 \<le> length [(5::int, 1::int), (3, 1), (5, 1), (4, 2), (4, 1)]" by simp
  with C1_get_or_create_sorted[OF h, of "[(5, 1), (3, 1), (5, 1), (4, 2), (4, 1)]" 1]
  have "\<exists>h' cs'.
         get_or_create_calls (take 5 [(5, 1), (3, 1), (5, 1), (4, 2), (4, 1)]) 1
            ([] :: unit connection list, ConnectionSet_init 0 0) = Inr (h', cs')
         \<and> (\<forall>(t, conns)\<in>set (connections_map cs').
               strictly_sorted_sgids (sgids_of h' conns) \<and> distinct (sgids_of h' conns))"
    by blast
  with h show ?thesis by blast
qed

text \<open>
  The same calls evaluated: the connections of target 1 were created in the order
  5, 3, 4 and are stored in the order 3, 4, 5.
\<close>

lemma get_or_create_calls_example:
  "get_or_create_calls [(5, 1), (3, 1), (5, 1), (4, 2), (4, 1)] 1
      ([] :: unit connection list, ConnectionSet_init 0 0)
   = Inr ([Connection 5 1 0 0 1, Connection 3 1 0 0 1, Connection 4 2 0 0 1, Connection 4 1 0 0 1],
          \<lparr>src_id = 0, dst_id = 0, src_name = None, dst_name = None,
           connections_map = [(1, [1, 3, 0]), (2, [2])], conn_count = 4\<rparr>)"
  by (simp add: get_or_create_connection_def create_and_insert_def defaultdict_getitem_def
      ConnectionSet_init_def list_insert_def Connection_def Let_def bin_search_def
      bin_search_loop.simps)

text \<open>
  Claim C3. On a ConnectionSet that satisfies the invariant, a call of
  \<open>get_or_create_connection\<close> returns a connection of the list of the target that has
  the source id: the stored one, with nothing changed, when the pair is stored, and
  else a new one, counted once. A second call with the same pair returns the same
  object and changes neither the count nor anything else.
\<close>

theorem C3_get_or_create_idempotent:
  assumes "cs_inv h cs"
  shows "\<exists>h1 cs1 a conns.
           get_or_create_connection s t w (h, cs) = Inr ((h1, cs1), a)
           \<and> map_of (connections_map cs1) t = Some conns \<and> a \<in> set conns
           \<and> a < length h1 \<and> sgid (h1 ! a) = Some s
           \<and> (if has_connection s t h cs then h1 = h \<and> cs1 = cs
               else h1 = h @ [Connection s t (src_id cs) (dst_id cs) w] \<and> a = length h
                    \<and> count cs1 = count cs + 1)
           \<and> (\<exists>h2 cs2. get_or_create_connection s t w' (h1, cs1) = Inr ((h2, cs2), a)
                 \<and> count cs2 = count cs1 \<and> h2 = h1 \<and> cs2 = cs1)"
proof -
  from get_or_create_result[OF assms, of s t w]
  obtain h' cs' a conns' i where r: "get_or_create_connection s t w (h, cs) = Inr ((h', cs'), a)"
    "cs_inv h' cs'" "map_of (connections_map cs') t = Some conns'"
    "i < length conns'" "conns' ! i = a" "sgid (h' ! a) = Some s" "a < length h'"
    "if has_connection s t h cs then h' = h \<and> cs' = cs
     else h' = h @ [Connection s t (src_id cs) (dst_id cs) w] \<and> a = length h
          \<and> conn_count cs' = conn_count cs + 1"
    by blast
  from r(4,5) have mem: "a \<in> set conns'" by auto
  from get_or_create_found[OF r(2) r(3) r(4), of s w'] r(5,6)
  have second: "get_or_create_connection s t w' (h', cs') = Inr ((h', cs'), a)" by simp
  from r(8) have cases: "if has_connection s t h cs then h' = h \<and> cs' = cs
     else h' = h @ [Connection s t (src_id cs) (dst_id cs) w] \<and> a = length h
          \<and> count cs' = count cs + 1"
    by (simp add: count_def)
  from r(1,3,6,7) mem cases second show ?thesis
    by (intro exI[of _ h'] exI[of _ cs'] exI[of _ a] exI[of _ conns']) simp
qed

theorem C3_get_or_create_idempotent_witness:
  "cs_inv [Connection 3 1 0 0 1, Connection 5 1 0 0 1 :: unit connection]
      \<lparr>src_id = 0, dst_id = 0, src_name = None, dst_name = None,
       connections_map = [(1, [0, 1])], conn_count = 2\<rparr>
   \<and> \<not> has_connection 4 1 [Connection 3 1 0 0 1, Connection 5 1 0 0 1 :: unit connection]
          \<lparr>src_id = 0, dst_id = 0, src_name = None, dst_name = None,
           connections_map = [(1, [0, 1])], conn_count = 2\<rparr>
   \<and> (\<exists>h1 cs1 a conns. get_or_create_connection 4 1 1
          ([Connection 3 1 0 0 1, Connection 5 1 0 0 1 :: unit connection],
           \<lparr>src_id = 0, dst_id = 0, src_name = None, dst_name = None,
            connections_map = [(1, [0, 1])], conn_count = 2\<rparr>) = Inr ((h1, cs1), a)
        \<and> map_of (connections_map cs1) 1 = Some conns \<and> a \<in> set conns
        \<and> a < length h1 \<and> sgid (h1 ! a) = Some 4
        \<and> h1 = [Connection 3 1 0 0 1, Connection 5 1 0 0 1, Connection 4 1 0 0 1]
        \<and> a = 2 \<and> count cs1 = 3
        \<and> (\<exists>h2 cs2. get_or_create_connection 4 1 2 (h1, cs1) = Inr ((h2, cs2), a)
              \<and> count cs2 = count cs1 \<and> h2 = h1 \<and> cs2 = cs1))"
proof -
  let ?h = "[Connection 3 1 0 0 1, Connection 5 1 0 0 1 :: unit connection]"
  let ?cs = "\<lparr>src_id = 0, dst_id = 0, src_name = None, dst_name = None,
            connections_map = [(1, [0, 1])], conn_count = 2\<rparr>"
  have h: "cs_inv ?h ?cs"
    by (simp add: cs_inv_def target_ok_def strictly_sorted_sgids_def sgids_of_def Connection_def)
  have n: "\<not> has_connection 4 1 ?h ?cs"
    by (simp add: has_connection_def sgids_of_def Connection_def)
  from C3_get_or_create_idempotent[OF h, of 4 1 1 2]
  obtain h1 cs1 a conns where r:
    "get_or_create_connection 4 1 1 (?h, ?cs) = Inr ((h1, cs1), a)"
    "map_of (connections_map cs1) 1 = Some conns" "a \<in> set conns"
    "a < length h1" "sgid (h1 ! a) = Some 4"
    "if has_connection 4 1 ?h ?cs then h1 = ?h \<and> cs1 = ?cs
     else h1 = ?h @ [Connection 4 1 (src_id ?cs) (dst_id ?cs) 1] \<and> a = length ?h
          \<and> count cs1 = count ?cs + 1"
    "\<exists>h2 cs2. get_or_create_connection 4 1 2 (h1, cs1) = Inr ((h2, cs2), a)
              \<and> count cs2 = count cs1 \<and> h2 = h1 \<and> cs2 = cs1"
    by blast
  from r(6) n have new: "h1 = [Connection 3 1 0 0 1, Connection 5 1 0 0 1, Connection 4 1 0 0 1]"
    "a = 2" "count cs1 = 3"
    by (simp_all add: count_def)
  from h n r(1-5,7) new show ?thesis by blast
qed

text \<open>
  Claim C5. On the ConnectionSet populated with the connections (3,1), (5,1), (5,2)
  and (7,2), \<open>delete_group(None, [5])\<close> returns normally and removes exactly (5,1)
  and (5,2): target 1 keeps (3,1), target 2 keeps (7,2), the targets keep their
  order, and the count is 2.
\<close>

theorem C5_delete_group_example:
  "get_or_create_calls [(3, 1), (5, 1), (5, 2), (7, 2)] 1
      ([] :: unit connection list, ConnectionSet_init 0 0)
   = Inr ([Connection 3 1 0 0 1, Connection 5 1 0 0 1, Connection 5 2 0 0 1, Connection 7 2 0 0 1],
          \<lparr>src_id = 0, dst_id = 0, src_name = None, dst_name = None,
           connections_map = [(1, [0, 1]), (2, [2, 3])], conn_count = 4\<rparr>)
   \<and> delete_group AllGids (Gids [5])
       [Connection 3 1 0 0 1, Connection 5 1 0 0 1, Connection 5 2 0 0 1,
        Connection 7 2 0 0 1 :: unit connection]
       \<lparr>src_id = 0, dst_id = 0, src_name = None, dst_name = None,
        connections_map = [(1, [0, 1]), (2, [2, 3])], conn_count = 4\<rparr>
     = (\<lparr>src_id = 0, dst_id = 0, src_name = None, dst_name = None,
         connections_map = [(1, [0]), (2, [3])], conn_count = 2\<rparr>, None)
   \<and> count \<lparr>src_id = 0, dst_id = 0, src_name = None, dst_name = None,
         connections_map = [(1, [0]), (2, [3])], conn_count = 2\<rparr> = 2"
proof (intro conjI)
  show "get_or_create_calls [(3, 1), (5, 1), (5, 2), (7, 2)] 1
      ([] :: unit connection list, ConnectionSet_init 0 0)
   = Inr ([Connection 3 1 0 0 1, Connection 5 1 0 0 1, Connection 5 2 0 0 1, Connection 7 2 0 0 1],
          \<lparr>src_id = 0, dst_id = 0, src_name = None, dst_name = None,
           connections_map = [(1, [0, 1]), (2, [2, 3])], conn_count = 4\<rparr>)"
    by (simp add: get_or_create_connection_def create_and_insert_def defaultdict_getitem_def
        ConnectionSet_init_def list_insert_def Connection_def Let_def)
  show "delete_group AllGids (Gids [5])
       [Connection 3 1 0 0 1, Connection 5 1 0 0 1, Connection 5 2 0 0 1,
        Connection 7 2 0 0 1 :: unit connection]
       \<lparr>src_id = 0, dst_id = 0, src_name = None, dst_name = None,
        connections_map = [(1, [0, 1]), (2, [2, 3])], conn_count = 4\<rparr>
     = (\<lparr>src_id = 0, dst_id = 0, src_name = None, dst_name = None,
         connections_map = [(1, [0]), (2, [3])], conn_count = 2\<rparr>, None)"
    by (simp add: delete_group_def post_gid_keys_def find_connections_def defaultdict_getitem_def
        numpy_searchsorted_def numpy_delete_def Connection_def Let_def enumerate_eq_zip)
  show "count \<lparr>src_id = 0, dst_id = 0, src_name = None, dst_name = None,
         connections_map = [(1, [0]), (2, [3])], conn_count = 2\<rparr> = 2"
    by (simp add: count_def)
qed

text \<open>
  Claim C9. For a target id that is not a key of the map, \<open>get_connection\<close> returns
  \<open>None\<close> and leaves the map with one more entry, the empty list for that target,
  so that the membership test on the set is true afterwards.
\<close>

theorem C9_get_connection_inserts_key:
  assumes "\<not> contains cs t"
  shows "\<exists>cs'. get_connection s t h cs = Inr (cs', None)
           \<and> connections_map cs' = connections_map cs @ [(t, [])]
           \<and> contains cs' t"
  using assms
  by (auto simp: get_connection_def find_connection_def defaultdict_getitem_def contains_def
      dict_contains_def map_add_def split: option.splits)

theorem C9_get_connection_inserts_key_witness:
  "\<not> contains (ConnectionSet_init 0 0) 7
   \<and> (\<exists>cs'. get_connection 3 7 ([] :: unit connection list) (ConnectionSet_init 0 0) = Inr (cs', None)
         \<and> connections_map cs' = connections_map (ConnectionSet_init 0 0) @ [(7, [])]
         \<and> contains cs' 7)"
proof -
  have h: "\<not> contains (ConnectionSet_init 0 0) 7"
    by (simp add: contains_def dict_contains_def ConnectionSet_init_def)
  show ?thesis
    using h C9_get_connection_inserts_key[OF h, of 3 "[] :: unit connection list"] by blast
qed

section \<open>Properties of the manager\<close>

subsection \<open>Locking passes\<close>


lemma locks_kept_refl: "locks_kept h h"
  by (simp add: locks_kept_def)

lemma locks_kept_trans:
  assumes "locks_kept h h1" and "locks_kept h1 h2"
  shows "locks_kept h h2"
  unfolding locks_kept_def
proof (intro conjI allI impI)
  show "length h \<le> length h2" using assms by (simp add: locks_kept_def)
next
  fix a assume "a < length h" "locked (h ! a)"
  with assms show "h2 ! a = h ! a" by (simp add: locks_kept_def)
next
  fix a assume a: "a < length h2" "length h \<le> a \<or> h2 ! a \<noteq> h ! a"
  show "locked (h2 ! a)"
  proof (cases "a < length h1")
    case False
    with assms(2) a(1) show ?thesis by (simp add: locks_kept_def)
  next
    case True
    show ?thesis
    proof (cases "h2 ! a = h1 ! a")
      case False
      with assms(2) a(1) show ?thesis by (simp add: locks_kept_def)
    next
      case eq: True
      with a(2) have "length h \<le> a \<or> h1 ! a \<noteq> h ! a" by simp
      with assms(1) True have "locked (h1 ! a)" unfolding locks_kept_def by blast
      with eq show ?thesis by simp
    qed
  qed
qed

lemma get_or_create_heap:
  assumes "get_or_create_connection s t w (h, cs) = Inr ((h', cs'), a)"
  shows "h' = h \<or> (h' = h @ [Connection s t (src_id cs) (dst_id cs) w] \<and> a = length h)"
  using assms
  by (auto simp: get_or_create_connection_def create_and_insert_def Let_def
      split: prod.splits if_splits option.splits sum.splits)

lemma add_synapses_loop_length:
  "length (add_synapses_loop env c rows r b h) = length h"
  by (induction env c rows r b h rule: add_synapses_loop.induct) (auto simp: Let_def)

lemma add_synapses_loop_other:
  "a \<noteq> c \<Longrightarrow> add_synapses_loop env c rows r b h ! a = h ! a"
  by (induction env c rows r b h rule: add_synapses_loop.induct) (auto simp: Let_def)

lemma connect_group_body_lock:
  assumes "connect_group_body env r y m = (m', e)"
  shows "locks_kept (heap m) (heap m')"
proof -
  obtain s t rows offs where y: "y = (s, t, rows, offs)" by (cases y)
  show ?thesis
  proof (cases "map_of (populations m) (cur_population m)")
    case None
    with assms y show ?thesis by (simp add: connect_group_body_def locks_kept_refl)
  next
    case (Some pop)
    show ?thesis
    proof (cases "get_or_create_connection s t 1 (heap m, pop)")
      case (Inl err)
      with assms y Some show ?thesis by (simp add: connect_group_body_def locks_kept_refl)
    next
      case (Inr res)
      obtain h' pop' c where res: "res = ((h', pop'), c)" by (metis surj_pair)
      from get_or_create_heap[OF Inr[unfolded res]]
      have hh: "h' = heap m \<or> (h' = heap m @ [Connection s t (src_id pop) (dst_id pop) 1] \<and> c = length (heap m))" .
      have base: "length (heap m) \<le> length h' \<and> (\<forall>a<length h'. length (heap m) \<le> a \<longrightarrow> a = c)
                  \<and> (\<forall>a<length (heap m). h' ! a = heap m ! a)"
        using hh by (auto simp: nth_append)
      have unlocked_new: "h' \<noteq> heap m \<Longrightarrow> \<not> locked (h' ! c)"
        using hh by (auto simp: nth_append Connection_def)
      show ?thesis
      proof (cases "locked (h' ! c)")
        case True
        with assms y Some Inr res have "heap m' = h'"
          by (auto simp: connect_group_body_def Let_def)
        moreover from True unlocked_new have "h' = heap m" by blast
        ultimately show ?thesis by (simp add: locks_kept_refl)
      next
        case False
        define h2 where "h2 = add_synapses env c rows r offs h'"
        from False assms y Some Inr res
        have hm': "heap m' = h2[c := (h2 ! c)\<lparr>locked := True\<rparr>]"
          by (auto simp: connect_group_body_def Let_def h2_def)
        have len2: "length h2 = length h'" by (simp add: h2_def add_synapses_def add_synapses_loop_length)
        have other: "\<And>a. a \<noteq> c \<Longrightarrow> h2 ! a = h' ! a"
          by (simp add: h2_def add_synapses_def add_synapses_loop_other)
        show ?thesis
          unfolding locks_kept_def
        proof (intro conjI allI impI)
          show "length (heap m) \<le> length (heap m')" using base hm' len2 by simp
        next
          fix a assume a: "a < length (heap m)" "locked (heap m ! a)"
          with base have "h' ! a = heap m ! a" by simp
          with a False have "a \<noteq> c" by auto
          with other hm' base a show "heap m' ! a = heap m ! a" by simp
        next
          fix a assume a: "a < length (heap m')" "length (heap m) \<le> a \<or> heap m' ! a \<noteq> heap m ! a"
          have al: "a < length h'" using a(1) hm' len2 by simp
          show "locked (heap m' ! a)"
          proof (cases "a = c")
            case True
            with al hm' len2 show ?thesis by simp
          next
            case ne: False
            then have eq: "heap m' ! a = h' ! a" using hm' other by simp
            from a(2) show ?thesis
            proof
              assume "length (heap m) \<le> a"
              with base al have "a = c" by simp
              with ne show ?thesis by simp
            next
              assume "heap m' ! a \<noteq> heap m ! a"
              with eq have "h' ! a \<noteq> heap m ! a" by simp
              with base al have "length (heap m) \<le> a" by (metis not_le_imp_less)
              with base al have "a = c" by simp
              with ne show ?thesis by simp
            qed
          qed
        qed
      qed
    qed
  qed
qed

lemma connect_group_loop_lock:
  "connect_group_loop env r ys m = (m', e) \<Longrightarrow> locks_kept (heap m) (heap m')"
proof (induction ys arbitrary: m)
  case Nil
  then show ?case by (simp add: locks_kept_refl)
next
  case (Cons y ys)
  obtain m1 e1 where b: "connect_group_body env r y m = (m1, e1)" by (metis surj_pair)
  have 1: "locks_kept (heap m) (heap m1)" by (rule connect_group_body_lock[OF b])
  show ?case
  proof (cases e1)
    case None
    with Cons.prems b have "connect_group_loop env r ys m1 = (m', e)" by simp
    from Cons.IH[OF this] 1 show ?thesis by (rule locks_kept_trans[rotated])
  next
    case (Some err)
    with Cons.prems b have "m' = m1" by simp
    with 1 show ?thesis by simp
  qed
qed

lemma count_created_heap: "heap (count_created n m) = heap m"
  by (simp add: count_created_def split: option.splits)

lemma connect_group_lock:
  assumes "connect_group env src dst r m = (m', e)"
  shows "locks_kept (heap m) (heap m')"
proof (cases "iterate_conn_params (map_option (getTarget env) (target_name env src))
                (map_option (getTarget env) (target_name env dst)) (local_gids m) (synapse_reader m)")
  case (Inl err)
  with assms show ?thesis by (simp add: connect_group_def locks_kept_refl)
next
  case (Inr ys)
  obtain m1 e1 where l: "connect_group_loop env r ys m = (m1, e1)" by (metis surj_pair)
  from connect_group_loop_lock[OF l] have 1: "locks_kept (heap m) (heap m1)" .
  from assms Inr l have "heap m' = heap m1"
    by (cases e1) (auto simp: connect_group_def Let_def count_created_heap)
  with 1 show ?thesis by simp
qed

subsection \<open>The small circuit evaluated\<close>

lemmas example_defs = example_env_def example_manager_def example_reader_def example_rows_def
  ConnectionManagerBase_init_def ConnectionSet_init_def

lemmas connect_defs = connect_group_def connect_group_body_def iterate_conn_params_def
  iterate_groups.simps group_end_def numpy_argmax_def get_or_create_connection_def
  create_and_insert_def defaultdict_getitem_def list_insert_def Connection_def add_synapses_def
  add_synapse_def count_created_def count_def bin_search_def bin_search_loop.simps Let_def
  enumerate_eq_zip

lemma example_after_A:
  "connect_group example_env ''A'' ''All'' None example_manager
   = (example_manager
        \<lparr>heap := [\<lparr>sgid = Some 5, tgid = 1, population_id = (0, 0), weight_factor = 1,
                   locked = True, disabled = False,
                   synapses = [((), example_rows ! 3, 3), ((), example_rows ! 4, 4)],
                   delayed_weights = []\<rparr>,
                  \<lparr>sgid = Some 7, tgid = 1, population_id = (0, 0), weight_factor = 1,
                   locked = True, disabled = False,
                   synapses = [((), example_rows ! 5, 5)], delayed_weights = []\<rparr>],
         populations := [((0, 0), (ConnectionSet_init 0 0)
                           \<lparr>connections_map := [(1, [0, 1])], conn_count := 2\<rparr>)],
         total_connections := 2\<rparr>, None)"
  by (simp add: example_defs connect_defs)

lemma example_connected_eq:
  "example_connected
   = example_manager
        \<lparr>heap := [\<lparr>sgid = Some 5, tgid = 1, population_id = (0, 0), weight_factor = 1,
                   locked = True, disabled = False,
                   synapses = [((), example_rows ! 3, 3), ((), example_rows ! 4, 4)],
                   delayed_weights = []\<rparr>,
                  \<lparr>sgid = Some 7, tgid = 1, population_id = (0, 0), weight_factor = 1,
                   locked = True, disabled = False,
                   synapses = [((), example_rows ! 5, 5)], delayed_weights = []\<rparr>,
                  \<lparr>sgid = Some 3, tgid = 1, population_id = (0, 0), weight_factor = 1,
                   locked = True, disabled = False,
                   synapses = [((), example_rows ! 0, 0), ((), example_rows ! 1, 1),
                               ((), example_rows ! 2, 2)],
                   delayed_weights = []\<rparr>],
         populations := [((0, 0), (ConnectionSet_init 0 0)
                           \<lparr>connections_map := [(1, [2, 0, 1])], conn_count := 3\<rparr>)],
         total_connections := 3\<rparr>"
  unfolding example_connected_def example_after_A
  by (simp add: example_defs connect_defs)

text \<open>
  Claim C2. For a target whose table has the source-id column 3, 3, 3, 5, 5, 7, with no
  source and no destination filter, the iterator yields three groups: the rows 0 to
  2 for source 3 at offset 0, the rows 3 and 4 for source 5 at offset 3, and the row
  5 for source 7 at offset 5.
\<close>

theorem C2_iterate_groups_example:
  assumes col: "map field0 rows = [3, 3, 3, 5, 5, 7]" and reader: "get_synapse_parameters t = rows"
  shows "iterate_conn_params None None [t] (Some get_synapse_parameters)
         = Inr [(3, t, take 3 rows, 0), (5, t, take 2 (drop 3 rows), 3),
                (7, t, take 1 (drop 5 rows), 5)]
         \<and> map length [take 3 rows, take 2 (drop 3 rows), take 1 (drop 5 rows)] = [3, 2, 1]"
proof -
  have "length (map field0 rows) = 6" by (simp add: col)
  then have len: "length rows = 6" by simp
  then have ne: "rows \<noteq> []" by auto
  show ?thesis
    by (simp add: iterate_conn_params_def iterate_groups.simps group_end_def numpy_argmax_def
        col len ne reader Let_def eval_nat_numeral)
qed

theorem C2_iterate_groups_example_witness:
  "map field0 example_rows = [3, 3, 3, 5, 5, 7] \<and> example_reader 1 = example_rows
   \<and> iterate_conn_params None None [1] (Some example_reader)
       = Inr [(3, 1, take 3 example_rows, 0), (5, 1, take 2 (drop 3 example_rows), 3),
              (7, 1, take 1 (drop 5 example_rows), 5)]
   \<and> map length [take 3 example_rows, take 2 (drop 3 example_rows), take 1 (drop 5 example_rows)]
       = [3, 2, 1]"
proof -
  have c: "map field0 example_rows = [3, 3, 3, 5, 5, 7]" by (simp add: example_rows_def)
  have r: "example_reader 1 = example_rows" by (simp add: example_reader_def)
  show ?thesis
    using c r C2_iterate_groups_example[where rows = example_rows
        and get_synapse_parameters = example_reader and t = 1, OF c r] by blast
qed

text \<open>
  Claim C4. In a call of \<open>connect_group\<close>, whether it returns or raises, a connection
  that is locked before the call is the same object after it, so it has received no
  synapse; every connection that the call created or changed is locked after it; and
  from any state reached during the call, whatever groups remain to be processed, a
  connection that is locked in that state stays as it is.
\<close>

theorem C4_connect_group_locked:
  "(\<forall>a<length (heap m). locked (heap m ! a)
       \<longrightarrow> heap (fst (connect_group env src dst r m)) ! a = heap m ! a)
   \<and> (\<forall>a<length (heap (fst (connect_group env src dst r m))).
         (length (heap m) \<le> a \<or> heap (fst (connect_group env src dst r m)) ! a \<noteq> heap m ! a)
         \<longrightarrow> locked (heap (fst (connect_group env src dst r m)) ! a))
   \<and> (\<forall>a<length (heap m'). locked (heap m' ! a)
         \<longrightarrow> heap (fst (connect_group_loop env r ys m')) ! a = heap m' ! a)"
proof -
  have "connect_group env src dst r m
        = (fst (connect_group env src dst r m), snd (connect_group env src dst r m))" by simp
  from connect_group_lock[OF this]
  have 1: "locks_kept (heap m) (heap (fst (connect_group env src dst r m)))" .
  have "connect_group_loop env r ys m'
        = (fst (connect_group_loop env r ys m'), snd (connect_group_loop env r ys m'))" by simp
  from connect_group_loop_lock[OF this]
  have 2: "locks_kept (heap m') (heap (fst (connect_group_loop env r ys m')))" .
  from 1 2 show ?thesis by (simp add: locks_kept_def)
qed

theorem C4_connect_group_locked_witness:
  "locked (heap (fst (connect_group example_env ''A'' ''All'' None example_manager)) ! 0)
   \<and> heap example_connected ! 0
       = heap (fst (connect_group example_env ''A'' ''All'' None example_manager)) ! 0
   \<and> length (heap (fst (connect_group example_env ''A'' ''All'' None example_manager))) = 2
   \<and> length (heap example_connected) = 3
   \<and> locked (heap example_connected ! 2)"
proof -
  let ?mA = "fst (connect_group example_env ''A'' ''All'' None example_manager)"
  have mB: "example_connected = fst (connect_group example_env ''B'' ''All'' None ?mA)"
    by (simp add: example_connected_def)
  have l0: "locked (heap ?mA ! 0)" and len: "length (heap ?mA) = 2"
    by (simp_all add: example_after_A)
  have len3: "length (heap example_connected) = 3" by (simp add: example_connected_eq)
  from C4_connect_group_locked[of ?mA example_env "''B''" "''All''" None, folded mB]
  have 1: "\<forall>a<length (heap ?mA). locked (heap ?mA ! a)
              \<longrightarrow> heap example_connected ! a = heap ?mA ! a"
    and 2: "\<forall>a<length (heap example_connected).
              (length (heap ?mA) \<le> a \<or> heap example_connected ! a \<noteq> heap ?mA ! a)
              \<longrightarrow> locked (heap example_connected ! a)"
    by blast+
  from 1 l0 len have a: "heap example_connected ! 0 = heap ?mA ! 0" by simp
  from 2 len len3 have b: "locked (heap example_connected ! 2)" by simp
  from l0 a len len3 b show ?thesis by blast
qed

text \<open>
  Claim C8. When exactly one \<open>Connection\<close> block matches the current population and
  its weight is zero, \<open>create_connections\<close> returns with the manager unchanged: no
  connection has been created.
\<close>

theorem C8_zero_weight_skips:
  assumes "matching_conns env src_target m = [conn]" and "Weight conn = 0"
  shows "create_connections env src_target m = (m, None)"
  using assms by (simp add: create_connections_def)

theorem C8_zero_weight_skips_witness:
  "matching_conns example_env None example_manager
     = [\<lparr>Source = ''A'', Destination = ''B'', Weight = 0, Delay = None,
         CreateMode = None, SynapseID = None\<rparr>]
   \<and> Weight \<lparr>Source = ''A'', Destination = ''B'', Weight = 0, Delay = None,
         CreateMode = None, SynapseID = None\<rparr> = 0
   \<and> create_connections example_env None example_manager = (example_manager, None)
   \<and> heap example_manager = []"
proof -
  have 1: "matching_conns example_env None example_manager
     = [\<lparr>Source = ''A'', Destination = ''B'', Weight = 0, Delay = None,
         CreateMode = None, SynapseID = None\<rparr>]"
    by (simp add: matching_conns_def example_defs)
  have 2: "Weight \<lparr>Source = ''A'', Destination = ''B'', Weight = 0, Delay = None,
         CreateMode = None, SynapseID = None\<rparr> = 0" by simp
  have 3: "heap example_manager = ([] :: unit connection list)" by (simp add: example_defs)
  show ?thesis using 1 2 3 C8_zero_weight_skips[OF 1 2] by blast
qed

subsection \<open>Finalizing\<close>

text \<open>
  What the loops of \<open>finalize\<close> do: the record of the visits grows by the connections
  in the order of the loop, and the count grows by the number of those whose
  \<open>Connection.finalize\<close> returns a true value.
\<close>

lemma finalize_each_result:
  "finalize_each env sc asc conns (m, n)
   = (m\<lparr>instantiated := instantiated m @ conns\<rparr>,
      n + int (length (filter (\<lambda>a. conn_finalize env sc asc (heap m ! a)) conns)))"
  by (induction conns arbitrary: m n) simp_all

lemma finalize_conns_result:
  "finalize_conns env sc asc t conns m
   = (m\<lparr>instantiated := instantiated m @ rev conns\<rparr>,
      int (length (filter (\<lambda>a. conn_finalize env sc asc (heap m ! a)) conns)))"
proof -
  have "length (filter (\<lambda>a. conn_finalize env sc asc (heap m ! a)) (rev conns))
        = length (filter (\<lambda>a. conn_finalize env sc asc (heap m ! a)) conns)"
    by (simp add: rev_filter[symmetric])
  then show ?thesis by (simp add: finalize_conns_def finalize_each_result)
qed

lemma finalize_items_result:
  "finalize_items env sc asc items (m, n)
   = (m\<lparr>instantiated := instantiated m @ concat (map (\<lambda>(t, conns). rev conns) items)\<rparr>,
      n + int (length (filter (\<lambda>a. conn_finalize env sc asc (heap m ! a))
                         (concat (map snd items)))))"
proof (induction items arbitrary: m n)
  case Nil
  then show ?case by simp
next
  case (Cons it items)
  obtain t conns where it: "it = (t, conns)" by (cases it)
  show ?case by (simp add: it finalize_conns_result Cons.IH)
qed

lemma finalize_populations_result:
  "finalize_populations env sc pops (m, n)
   = (m\<lparr>instantiated := instantiated m
           @ concat (map (\<lambda>(popid, pop). concat (map (\<lambda>(t, conns). rev conns)
                                                (connections_map pop))) pops)\<rparr>,
      n + sum_list
            (map (\<lambda>(popid, pop).
                    int (length (filter (\<lambda>a. conn_finalize env sc
                                               (src_id pop = 0 \<or> (src_name pop = None \<and> sc))
                                               (heap m ! a))
                                   (concat (map snd (connections_map pop))))))
               pops))"
proof (induction pops arbitrary: m n)
  case Nil
  then show ?case by simp
next
  case (Cons p pops)
  obtain popid pop where p: "p = (popid, pop)" by (cases p)
  show ?case by (simp add: p finalize_items_result Cons.IH)
qed

lemma finalize_local_result:
  "finalize_local env sc m
   = (m\<lparr>synapse_reader := None, instantiated := instantiated m @ visit_order m\<rparr>,
      created_count env sc m)"
  by (simp add: finalize_local_def finalize_populations_result visit_order_def created_count_def)

text \<open>The visits of one target are by descending source id.\<close>

lemma visit_descending:
  assumes "cs_inv h cs" and "(t, conns) \<in> set (connections_map cs)"
  shows "\<exists>ks. sgids_of h (rev conns) = map Some ks \<and> sorted_wrt (>) ks"
proof -
  from assms have "target_ok h conns" by (auto simp: cs_inv_def list_all_iff)
  then obtain ks where ks: "sgids_of h conns = map Some ks" "sorted_wrt (<) ks"
    by (auto simp: target_ok_def strictly_sorted_sgids_iff)
  from ks(1) have "sgids_of h (rev conns) = map Some (rev ks)"
    by (simp add: sgids_of_def rev_map[symmetric])
  moreover from ks(2) have "sorted_wrt (>) (rev ks)"
    by (simp add: sorted_wrt_rev)
  ultimately show ?thesis by blast
qed

text \<open>
  The visits of one target are in reverse creation order exactly when the list holds
  the connections in creation order.
\<close>

lemma visit_reverse_creation:
  "(rev conns = reverse_creation_order conns) = sorted conns"
proof
  assume "rev conns = reverse_creation_order conns"
  then have "conns = sort conns" by (simp add: reverse_creation_order_def)
  then show "sorted conns" by (metis sorted_sort)
next
  assume "sorted conns"
  then show "rev conns = reverse_creation_order conns"
    by (simp add: reverse_creation_order_def sorted_sort_id)
qed

text \<open>
  Under the ordering invariant the visits of one target are in reverse creation order
  exactly when its connections, taken in creation order, have strictly ascending
  source ids.
\<close>

lemma visit_reverse_creation_ascending:
  assumes "cs_inv h cs" and "(t, conns) \<in> set (connections_map cs)"
  shows "(rev conns = reverse_creation_order conns)
         = strictly_sorted_sgids (sgids_of h (sort conns))"
proof -
  let ?f = "\<lambda>a. sgid (h ! a)"
  from assms have "target_ok h conns" by (auto simp: cs_inv_def list_all_iff)
  then obtain ks where ks: "map ?f conns = map Some ks" "sorted_wrt (<) ks"
    by (auto simp: target_ok_def strictly_sorted_sgids_iff sgids_of_def)
  from ks(2) have "distinct ks" by (simp add: strict_sorted_iff)
  then have "distinct (map Some ks)" by (simp add: distinct_map)
  with ks(1) have "distinct (map ?f conns)" by simp
  then have inj: "inj_on ?f (set conns)" by (simp add: distinct_map)
  show ?thesis
  proof
    assume "rev conns = reverse_creation_order conns"
    then have "sort conns = conns" by (simp add: reverse_creation_order_def)
    with ks show "strictly_sorted_sgids (sgids_of h (sort conns))"
      by (auto simp: strictly_sorted_sgids_iff sgids_of_def)
  next
    assume "strictly_sorted_sgids (sgids_of h (sort conns))"
    then obtain js where js: "map ?f (sort conns) = map Some js" "sorted_wrt (<) js"
      by (auto simp: strictly_sorted_sgids_iff sgids_of_def)
    have "set (map Some js) = set (map Some ks)"
      using js(1)[symmetric] ks(1)[symmetric] by (simp only: set_map set_sort)
    then have "set js = set ks" by (simp add: inj_image_eq_iff)
    with js(2) ks(2) have "js = ks" by (metis strict_sorted_equal)
    with js(1) ks(1) have "map ?f (sort conns) = map ?f conns" by simp
    moreover have "inj_on ?f (set (sort conns) \<union> set conns)" using inj by simp
    ultimately have "sort conns = conns" by (simp add: inj_on_map_eq_map)
    then show "rev conns = reverse_creation_order conns"
      by (simp add: reverse_creation_order_def)
  qed
qed

lemma example_counts:
  "map (created_count example_env False) [example_rank0, example_manager, example_connected]
   = [4, 0, 3]"
  by (simp add: created_count_def example_rank0_def example_connected_eq example_defs)

lemma example_connected_visits: "visit_order example_connected = [1, 0, 2]"
  by (simp add: visit_order_def example_connected_eq example_defs)

text \<open>
  Claim C6, as the code has it. On every rank \<open>finalize\<close> visits, population after
  population and target after target, the connections of each list from the last one
  to the first. In a population that satisfies the ordering invariant this is by
  strictly descending source id, and it is the reverse creation order of the
  connections of the target exactly when the list holds them in creation order. Every
  rank returns the sum over all ranks of the local counts, the count of a rank being
  the number of its connections for which \<open>Connection.finalize\<close> returns a true
  value; for local counts 4, 0 and 3 the total is 7.
\<close>

theorem C6_finalize_visits_and_total:
  assumes "i < length ranks"
  shows "(\<exists>m'. finalize env sim_corenrn ranks ! i
                 = (m', sum_list (map (created_count env sim_corenrn) ranks))
           \<and> m' = (ranks ! i)\<lparr>synapse_reader := None,
                               instantiated := instantiated (ranks ! i) @ visit_order (ranks ! i)\<rparr>)
         \<and> (\<forall>(popid, pop)\<in>set (populations (ranks ! i)). \<forall>(t, conns)\<in>set (connections_map pop).
               (cs_inv (heap (ranks ! i)) pop
                  \<longrightarrow> (\<exists>ks. sgids_of (heap (ranks ! i)) (rev conns) = map Some ks
                           \<and> sorted_wrt (>) ks)
                      \<and> (rev conns = reverse_creation_order conns)
                          = strictly_sorted_sgids (sgids_of (heap (ranks ! i)) (sort conns)))
               \<and> (rev conns = reverse_creation_order conns) = sorted conns)
         \<and> MPI_allreduce_SUM [4, 0, 3] = 7"
proof (intro conjI)
  show "\<exists>m'. finalize env sim_corenrn ranks ! i
                 = (m', sum_list (map (created_count env sim_corenrn) ranks))
           \<and> m' = (ranks ! i)\<lparr>synapse_reader := None,
                               instantiated := instantiated (ranks ! i) @ visit_order (ranks ! i)\<rparr>"
    using assms
    by (simp add: finalize_def MPI_allreduce_SUM_def Let_def split_beta comp_def
        finalize_local_result)
next
  show "\<forall>(popid, pop)\<in>set (populations (ranks ! i)). \<forall>(t, conns)\<in>set (connections_map pop).
               (cs_inv (heap (ranks ! i)) pop
                  \<longrightarrow> (\<exists>ks. sgids_of (heap (ranks ! i)) (rev conns) = map Some ks
                           \<and> sorted_wrt (>) ks)
                      \<and> (rev conns = reverse_creation_order conns)
                          = strictly_sorted_sgids (sgids_of (heap (ranks ! i)) (sort conns)))
               \<and> (rev conns = reverse_creation_order conns) = sorted conns"
  proof (intro ballI, clarify, intro conjI impI)
    fix popid :: "int \<times> int" and pop :: ConnectionSet and t :: int and conns :: "conn_ref list"
    assume mem: "(t, conns) \<in> set (connections_map pop)"
    show "(rev conns = reverse_creation_order conns) = sorted conns"
      by (rule visit_reverse_creation)
    assume inv: "cs_inv (heap (ranks ! i)) pop"
    show "\<exists>ks. sgids_of (heap (ranks ! i)) (rev conns) = map Some ks \<and> sorted_wrt (>) ks"
      by (rule visit_descending[OF inv mem])
    show "(rev conns = reverse_creation_order conns)
          = strictly_sorted_sgids (sgids_of (heap (ranks ! i)) (sort conns))"
      by (rule visit_reverse_creation_ascending[OF inv mem])
  qed
next
  show "MPI_allreduce_SUM [4, 0, 3] = 7" by (simp add: MPI_allreduce_SUM_def)
qed

theorem C6_finalize_visits_and_total_witness:
  "(2::nat) < length [example_rank0, example_manager, example_connected]
   \<and> map (created_count example_env False) [example_rank0, example_manager, example_connected]
       = [4, 0, 3]
   \<and> snd (finalize example_env False [example_rank0, example_manager, example_connected] ! 2) = 7
   \<and> instantiated (fst (finalize example_env False
                           [example_rank0, example_manager, example_connected] ! 2)) = [1, 0, 2]
   \<and> cs_inv (heap example_connected)
         ((ConnectionSet_init 0 0)\<lparr>connections_map := [(1, [2, 0, 1])], conn_count := 3\<rparr>)
   \<and> (\<exists>ks. sgids_of (heap example_connected) (rev [2, 0, 1]) = map Some ks \<and> sorted_wrt (>) ks)
   \<and> sgids_of (heap example_connected) (rev [2, 0, 1]) = [Some 7, Some 5, Some 3]
   \<and> (rev [2, 0, 1] = reverse_creation_order [2, 0, 1])
        = strictly_sorted_sgids (sgids_of (heap example_connected) (sort [2, 0, 1]))
   \<and> sgids_of (heap example_connected) (sort [2, 0, 1]) = [Some 5, Some 7, Some 3]
   \<and> (rev [2, 0, 1] = reverse_creation_order [2, 0, 1]) = sorted [2, 0, 1 :: nat]
   \<and> \<not> sorted [2, 0, 1 :: nat]"
proof -
  let ?ranks = "[example_rank0, example_manager, example_connected]"
  let ?pop = "(ConnectionSet_init 0 0)\<lparr>connections_map := [(1, [2, 0, 1])], conn_count := 3\<rparr>"
  have len: "(2::nat) < length ?ranks" by simp
  have r2: "?ranks ! 2 = example_connected" by simp
  have pops: "populations example_connected = [((0, 0), ?pop)]"
    by (simp add: example_connected_eq example_defs)
  have inv: "cs_inv (heap example_connected) ?pop"
    by (simp add: cs_inv_def target_ok_def strictly_sorted_sgids_def sgids_of_def
        example_connected_eq example_defs)
  have keys: "sgids_of (heap example_connected) (rev [2, 0, 1]) = [Some 7, Some 5, Some 3]"
    by (simp add: sgids_of_def example_connected_eq example_defs)
  have crea: "sgids_of (heap example_connected) (sort [2, 0, 1]) = [Some 5, Some 7, Some 3]"
    by (simp add: sgids_of_def example_connected_eq example_defs)
  have ns: "\<not> sorted [2, 0, 1 :: nat]" by simp
  have inst: "instantiated example_connected = []"
    by (simp add: example_connected_eq example_defs)
  note main = C6_finalize_visits_and_total[OF len, of example_env False, unfolded r2]
  from main obtain m' where m': "finalize example_env False ?ranks ! 2
         = (m', sum_list (map (created_count example_env False) ?ranks))"
      "m' = example_connected\<lparr>synapse_reader := None,
                 instantiated := instantiated example_connected @ visit_order example_connected\<rparr>"
    by blast
  from main have all: "\<forall>(popid, pop)\<in>set (populations example_connected).
        \<forall>(t, conns)\<in>set (connections_map pop).
               (cs_inv (heap example_connected) pop
                  \<longrightarrow> (\<exists>ks. sgids_of (heap example_connected) (rev conns) = map Some ks
                           \<and> sorted_wrt (>) ks)
                      \<and> (rev conns = reverse_creation_order conns)
                          = strictly_sorted_sgids (sgids_of (heap example_connected) (sort conns)))
               \<and> (rev conns = reverse_creation_order conns) = sorted conns"
    by blast
  have mem1: "((0, 0), ?pop) \<in> set (populations example_connected)" by (simp add: pops)
  have mem2: "(1, [2, 0, 1]) \<in> set (connections_map ?pop)" by simp
  note one = bspec[OF bspec[OF all mem1, unfolded prod.case] mem2, unfolded prod.case]
  from one inv have desc: "\<exists>ks. sgids_of (heap example_connected) (rev [2, 0, 1]) = map Some ks
                           \<and> sorted_wrt (>) ks"
    and asc: "(rev [2, 0, 1] = reverse_creation_order [2, 0, 1])
              = strictly_sorted_sgids (sgids_of (heap example_connected) (sort [2, 0, 1]))"
    and rc: "(rev [2, 0, 1] = reverse_creation_order [2, 0, 1]) = sorted [2, 0, 1 :: nat]"
    by blast+
  have sum: "sum_list (map (created_count example_env False) ?ranks) = 7"
    by (simp only: example_counts) simp
  from m'(1) have "snd (finalize example_env False ?ranks ! 2)
                   = sum_list (map (created_count example_env False) ?ranks)"
    by (simp only: snd_conv)
  with sum have total: "snd (finalize example_env False ?ranks ! 2) = 7"
    by (simp only:)
  from m' have vis: "instantiated (fst (finalize example_env False ?ranks ! 2)) = [1, 0, 2]"
    by (simp add: example_connected_visits inst)
  from len example_counts total vis inv desc keys asc crea rc ns show ?thesis by blast
qed

text \<open>
  The claim as stated fails: in the small circuit the connections of target 1 were
  created in the order (5,1), (7,1), (3,1), which are the references 0, 1 and 2; the
  list holds them as 2, 0, 1; \<open>finalize\<close> visits 1, 0, 2, while the reverse of the
  creation order is 2, 1, 0.
\<close>

theorem C6_reverse_creation_counterexample:
  "map (\<lambda>a. sgid (heap example_connected ! a)) [0, 1, 2] = [Some 5, Some 7, Some 3]
   \<and> map snd (populations example_connected)
       = [(ConnectionSet_init 0 0)\<lparr>connections_map := [(1, [2, 0, 1])], conn_count := 3\<rparr>]
   \<and> instantiated (fst (finalize_local example_env False example_connected)) = [1, 0, 2]
   \<and> reverse_creation_order [2, 0, 1] = [2, 1, 0]
   \<and> instantiated (fst (finalize_local example_env False example_connected))
       \<noteq> reverse_creation_order [2, 0, 1]"
  by (simp add: finalize_local_result example_connected_visits reverse_creation_order_def)
     (simp add: example_connected_eq example_defs)


subsection \<open>Point lookup\<close>

lemma target_ok_keys:
  assumes "target_ok h conns"
  shows "\<exists>ks. sgids_of h conns = map Some ks \<and> sorted_wrt (<) ks \<and> length ks = length conns
            \<and> (\<forall>j<length conns. sgid (h ! (conns ! j)) = Some (ks ! j))"
proof -
  from assms obtain ks where keys: "sgids_of h conns = map Some ks" and srt: "sorted_wrt (<) ks"
    by (auto simp: target_ok_def strictly_sorted_sgids_iff)
  have len: "length ks = length conns" using keys by (metis length_map sgids_of_def)
  have "\<forall>j<length conns. sgid (h ! (conns ! j)) = Some (ks ! j)"
  proof (intro allI impI)
    fix j assume j: "j < length conns"
    then have "sgids_of h conns ! j = sgid (h ! (conns ! j))" by (simp add: sgids_of_def)
    with keys j len show "sgid (h ! (conns ! j)) = Some (ks ! j)" by simp
  qed
  with keys srt len show ?thesis by blast
qed

lemma bin_search_finds:
  assumes ok: "target_ok h conns" and i: "i < length conns"
    and sg: "sgid (h ! (conns ! i)) = Some s"
  shows "bin_search conns s (\<lambda>a. sgid (h ! a)) = Inr i"
proof -
  from target_ok_keys[OF ok]
  obtain ks where keys: "sgids_of h conns = map Some ks" and srt: "sorted_wrt (<) ks"
    and len: "length ks = length conns"
    and nth: "\<And>j. j < length conns \<Longrightarrow> sgid (h ! (conns ! j)) = Some (ks ! j)"
    by blast
  have ksi: "ks ! i = s" using nth[OF i] sg by simp
  have sorted: "sorted ks" using srt by (simp add: strict_sorted_iff)
  from bin_search_sorted[of "\<lambda>a. sgid (h ! a)" conns ks s] keys sorted
  obtain p where p: "bin_search conns s (\<lambda>a. sgid (h ! a)) = Inr p" "p \<le> length ks"
    "\<forall>j<p. ks ! j < s" "\<forall>j. p \<le> j \<and> j < length ks \<longrightarrow> s \<le> ks ! j"
    by (auto simp: sgids_of_def)
  have "\<not> i < p" using p(3) ksi by auto
  moreover have "\<not> p < i"
  proof
    assume "p < i"
    with srt i len have "ks ! p < ks ! i" by (simp add: sorted_wrt_nth_less)
    moreover from \<open>p < i\<close> i len p(4) have "s \<le> ks ! p" by simp
    ultimately show False using ksi by simp
  qed
  ultimately show ?thesis using p(1) by simp
qed

lemma bin_search_returns:
  assumes ok: "target_ok h conns"
  shows "\<exists>p\<le>length conns. bin_search conns s (\<lambda>a. sgid (h ! a)) = Inr p"
proof -
  from target_ok_keys[OF ok]
  obtain ks where keys: "sgids_of h conns = map Some ks" and srt: "sorted_wrt (<) ks"
    and len: "length ks = length conns"
    by blast
  have sorted: "sorted ks" using srt by (simp add: strict_sorted_iff)
  from bin_search_sorted[of "\<lambda>a. sgid (h ! a)" conns ks s] keys sorted len
  show ?thesis by (auto simp: sgids_of_def)
qed

lemma get_connection_present:
  assumes inv: "cs_inv h cs" and look: "map_of (connections_map cs) t = Some conns"
    and i: "i < length conns" and sg: "sgid (h ! (conns ! i)) = Some s"
  shows "get_connection s t h cs = Inr (cs, Some (conns ! i))"
proof -
  have ok: "target_ok h conns" by (rule cs_inv_lookup[OF inv look])
  have ne: "conns \<noteq> []" using i by auto
  from bin_search_finds[OF ok i sg] look i sg ne show ?thesis
    by (simp add: get_connection_def find_connection_def defaultdict_getitem_def)
qed

lemma get_connection_absent:
  assumes inv: "cs_inv h cs" and no: "\<not> has_connection s t h cs"
  shows "\<exists>cs'. get_connection s t h cs = Inr (cs', None)"
proof (cases "map_of (connections_map cs) t")
  case None
  then show ?thesis
    by (simp add: get_connection_def find_connection_def defaultdict_getitem_def)
next
  case (Some conns)
  have ok: "target_ok h conns" by (rule cs_inv_lookup[OF inv Some])
  from bin_search_returns[OF ok, of s]
  obtain p where p: "p \<le> length conns" "bin_search conns s (\<lambda>a. sgid (h ! a)) = Inr p" by blast
  have "p = length conns \<or> sgid (h ! (conns ! p)) \<noteq> Some s"
  proof (cases "p = length conns")
    case False
    with p(1) have "p < length conns" by simp
    with no Some show ?thesis by (auto simp: has_connection_iff)
  qed simp
  with Some p(2) show ?thesis
    by (auto simp: get_connection_def find_connection_def defaultdict_getitem_def)
qed

subsection \<open>Selected populations\<close>

lemma find_populations_keys:
  assumes "find_populations sel m = Inr ks" and "k \<in> set ks"
  shows "\<exists>pop. map_of (populations m) k = Some pop \<and> (k, pop) \<in> set (populations m)"
proof -
  have filt: "\<And>P. k \<in> set (map fst (filter P (populations m)))
            \<Longrightarrow> \<exists>pop. map_of (populations m) k = Some pop \<and> (k, pop) \<in> set (populations m)"
  proof -
    fix P assume "k \<in> set (map fst (filter P (populations m)))"
    then have "k \<in> fst ` set (populations m)" by auto
    then obtain pop where "map_of (populations m) k = Some pop"
      by (metis map_of_eq_None_iff not_Some_eq)
    then show "\<exists>pop. map_of (populations m) k = Some pop \<and> (k, pop) \<in> set (populations m)"
      by (auto dest: map_of_SomeD)
  qed
  show ?thesis
  proof (cases sel)
    case NoIds
    with assms filt show ?thesis by (auto simp: find_populations_def)
  next
    case (SrcId x)
    with assms filt show ?thesis by (auto simp: find_populations_def)
  next
    case (Ids a b)
    with assms filt show ?thesis
      by (cases a; cases b) (auto simp: find_populations_def split: option.splits dest: map_of_SomeD)
  qed
qed

lemma mgr_inv_pop:
  assumes "mgr_inv m" and "(k, pop) \<in> set (populations m)"
  shows "cs_inv (heap m) pop" and "k = (src_id pop, dst_id pop)"
    and "\<And>t conns a. (t, conns) \<in> set (connections_map pop) \<Longrightarrow> a \<in> set conns
           \<Longrightarrow> population_id (heap m ! a) = k"
proof -
  from assms have all: "cs_inv (heap m) pop \<and> k = (src_id pop, dst_id pop)
      \<and> list_all (\<lambda>(t, conns). list_all (\<lambda>a. population_id (heap m ! a) = k) conns)
            (connections_map pop)"
    by (auto simp: mgr_inv_def list_all_iff split_def dest!: bspec)
  then show "cs_inv (heap m) pop" and "k = (src_id pop, dst_id pop)" by simp_all
  fix t conns a assume "(t, conns) \<in> set (connections_map pop)" "a \<in> set conns"
  with all show "population_id (heap m ! a) = k"
    by (auto simp: list_all_iff split_def dest!: bspec)
qed



subsection \<open>The other operations keep the invariant\<close>

lemma strict_sorted_delete_nth:
  assumes "sorted_wrt (<) (ks :: int list)"
  shows "sorted_wrt (<) (take i ks @ drop (Suc i) ks)"
proof (cases "i < length ks")
  case False
  with assms show ?thesis by simp
next
  case True
  then have "ks = take i ks @ ks ! i # drop (Suc i) ks" by (simp add: id_take_nth_drop)
  with assms have "sorted_wrt (<) (take i ks @ ks ! i # drop (Suc i) ks)" by simp
  then show ?thesis by (auto simp: sorted_wrt_append)
qed

lemma target_ok_list_del:
  assumes "target_ok h conns"
  shows "target_ok h (list_del idx conns)"
proof -
  from assms obtain ks where ks: "sgids_of h conns = map Some ks" "sorted_wrt (<) ks"
    by (auto simp: target_ok_def strictly_sorted_sgids_iff)
  from ks(1) have "sgids_of h (list_del idx conns) = map Some (take idx ks @ drop (Suc idx) ks)"
    by (simp add: sgids_of_def list_del_def take_map[symmetric] drop_map[symmetric])
  with strict_sorted_delete_nth[OF ks(2), of idx]
  have "strictly_sorted_sgids (sgids_of h (list_del idx conns))"
    unfolding strictly_sorted_sgids_iff by blast
  moreover from assms have "list_all (\<lambda>a. a < length h) (list_del idx conns)"
    by (auto simp: target_ok_def list_all_iff list_del_def dest: in_set_takeD in_set_dropD)
  ultimately show ?thesis by (simp add: target_ok_def)
qed

lemma cs_inv_update:
  "cs_inv h (cs\<lparr>connections_map := m\<rparr>) \<Longrightarrow> target_ok h conns
   \<Longrightarrow> cs_inv h (cs\<lparr>connections_map := AList.update t conns m, conn_count := n\<rparr>)"
  by (auto simp: cs_inv_def AList.distinct_update intro: list_all_alist_update)

lemma find_connection_inv:
  assumes "cs_inv h cs"
  shows "\<exists>cs' conns idx. find_connection s t exact h cs = Inr (cs', conns, idx)
           \<and> cs_inv h cs' \<and> target_ok h conns
           \<and> cs' = cs\<lparr>connections_map := connections_map cs'\<rparr>
           \<and> map_of (connections_map cs') t = Some conns
           \<and> (\<forall>p. idx = Some p \<longrightarrow> p \<le> length conns)"
proof -
  obtain m conns where get: "defaultdict_getitem (connections_map cs) t = (m, conns)"
    by (cases "defaultdict_getitem (connections_map cs) t")
  from cs_inv_getitem[OF assms get]
  have invm: "cs_inv h (cs\<lparr>connections_map := m\<rparr>)" and ok: "target_ok h conns"
    and look: "map_of m t = Some conns" by simp_all
  from bin_search_returns[OF ok, of s]
  obtain p where p: "p \<le> length conns" "bin_search conns s (\<lambda>a. sgid (h ! a)) = Inr p" by blast
  define pos where "pos = (if conns \<noteq> [] then p else 0)"
  define idx where "idx = (if exact \<and> (pos = length conns \<or> sgid (h ! (conns ! pos)) \<noteq> Some s)
                            then None else Some pos)"
  have "find_connection s t exact h cs = Inr (cs\<lparr>connections_map := m\<rparr>, conns, idx)"
    using get p(2) by (auto simp: find_connection_def idx_def pos_def Let_def)
  moreover have "\<forall>q. idx = Some q \<longrightarrow> q \<le> length conns"
    using p(1) by (auto simp: idx_def pos_def split: if_splits)
  ultimately show ?thesis using invm ok look by auto
qed

lemma delete_inv:
  assumes "cs_inv h cs"
  shows "\<exists>cs'. delete s t h cs = Inr cs' \<and> cs_inv h cs'"
proof -
  from find_connection_inv[OF assms, of s t True]
  obtain cs1 conns idx where f: "find_connection s t True h cs = Inr (cs1, conns, idx)"
    "cs_inv h cs1" "target_ok h conns" "cs1 = cs\<lparr>connections_map := connections_map cs1\<rparr>"
    by blast
  show ?thesis
  proof (cases idx)
    case None
    with f show ?thesis by (simp add: delete_def)
  next
    case (Some i)
    have "cs_inv h (cs1\<lparr>connections_map := connections_map cs1\<rparr>)" using f(2) by simp
    from cs_inv_update[OF this target_ok_list_del[OF f(3)], where t = t and idx1 = i
        and n = "conn_count cs1 - 1"]
    have "cs_inv h (cs1\<lparr>conn_count := conn_count cs1 - 1,
             connections_map := AList.update t (list_del i conns) (connections_map cs1)\<rparr>)"
      by (simp add: cs_inv_def)
    with f(1) Some show ?thesis by (simp add: delete_def)
  qed
qed

lemma numpy_delete_nths:
  "map snd (filter (\<lambda>(i, x). i \<notin> set obj) (enumerate 0 arr)) = nths arr {i. i \<notin> set obj}"
  by (simp add: nths_def enumerate_eq_zip zip_commute[of arr] filter_map comp_def split_def)

lemma target_ok_nths:
  assumes "target_ok h conns"
  shows "target_ok h (nths conns A)"
proof -
  from assms obtain ks where ks: "sgids_of h conns = map Some ks" "sorted_wrt (<) ks"
    by (auto simp: target_ok_def strictly_sorted_sgids_iff)
  from ks(1) have "sgids_of h (nths conns A) = map Some (nths ks A)"
    by (simp add: sgids_of_def nths_map[symmetric])
  moreover from ks(2) have "sorted_wrt (<) (nths ks A)"
    by (simp add: strict_sorted_iff sorted_nths)
  ultimately have "strictly_sorted_sgids (sgids_of h (nths conns A))"
    unfolding strictly_sorted_sgids_iff by blast
  moreover from assms have "list_all (\<lambda>a. a < length h) (nths conns A)"
    by (auto simp: target_ok_def list_all_iff dest: in_set_nthsD)
  ultimately show ?thesis by (simp add: target_ok_def)
qed

lemma delete_group_loop_inv:
  "cs_inv h cs \<Longrightarrow> cs_inv h (fst (delete_group_loop ts pre_gids h cs))"
proof (induction ts arbitrary: cs)
  case Nil
  then show ?case by simp
next
  case (Cons t ts)
  obtain m conns where get: "defaultdict_getitem (connections_map cs) t = (m, conns)"
    by (cases "defaultdict_getitem (connections_map cs) t")
  from cs_inv_getitem[OF Cons.prems get]
  have invm: "cs_inv h (cs\<lparr>connections_map := m\<rparr>)" and ok: "target_ok h conns" by simp_all
  show ?case
  proof (cases "find_connections pre_gids h conns")
    case (Inl e)
    with get invm show ?thesis by simp
  next
    case (Inr indices)
    show ?thesis
    proof (cases "numpy_delete conns indices")
      case (Inl e)
      with Inr get invm show ?thesis by simp
    next
      case del: (Inr conns')
      then have "conns' = nths conns {i. i \<notin> set indices}"
        by (auto simp: numpy_delete_def numpy_delete_nths split: if_splits)
      with target_ok_nths[OF ok] have ok': "target_ok h conns'" by simp
      from cs_inv_update[OF invm ok', where t = t and n = "conn_count cs - int (length indices)"]
      have "cs_inv h (cs\<lparr>connections_map := AList.update t conns' m,
                           conn_count := conn_count cs - int (length indices)\<rparr>)" .
      from Cons.IH[OF this] Inr del get show ?thesis by simp
    qed
  qed
qed

lemma delete_group_inv:
  "cs_inv h cs \<Longrightarrow> cs_inv h (fst (delete_group post_gids pre_gids h cs))"
  by (simp add: delete_group_def delete_group_loop_inv)

lemma target_ok_list_insert:
  assumes ok: "target_ok h conns" and keys: "sgids_of h conns = map Some ks"
    and pos: "pos \<le> length ks" "\<forall>i<pos. ks ! i < s"
             "\<forall>i. pos \<le> i \<and> i < length ks \<longrightarrow> s \<le> ks ! i" "pos = length ks \<or> ks ! pos \<noteq> s"
    and valid: "conn < length h" and sg: "sgid (h ! conn) = Some s"
  shows "target_ok h (list_insert pos conn conns)"
proof -
  from ok keys have srt: "sorted_wrt (<) ks"
    by (auto simp: target_ok_def strictly_sorted_sgids_iff)
  from keys have "sgids_of h (take pos conns) = map Some (take pos ks)"
      "sgids_of h (drop pos conns) = map Some (drop pos ks)"
    by (simp_all add: sgids_of_def take_map[symmetric] drop_map[symmetric])
  then have "sgids_of h (list_insert pos conn conns) = map Some (take pos ks @ s # drop pos ks)"
    using sg by (simp add: list_insert_def sgids_of_def)
  with strict_sorted_insert[OF srt pos]
  have "strictly_sorted_sgids (sgids_of h (list_insert pos conn conns))"
    unfolding strictly_sorted_sgids_iff by blast
  moreover from ok valid have "list_all (\<lambda>a. a < length h) (list_insert pos conn conns)"
    by (auto simp: target_ok_def list_insert_def list_all_iff dest!: in_set_takeD in_set_dropD)
  ultimately show ?thesis by (simp add: target_ok_def)
qed

lemma store_connection_inv:
  assumes inv: "cs_inv h cs" and valid: "conn < length h" and sg: "sgid (h ! conn) = Some s"
  shows "\<exists>cs'. store_connection conn h cs = Inr cs' \<and> cs_inv h cs'"
proof -
  let ?t = "tgid (h ! conn)"
  obtain m conns where get: "defaultdict_getitem (connections_map cs) ?t = (m, conns)"
    by (cases "defaultdict_getitem (connections_map cs) ?t")
  from cs_inv_getitem[OF inv get]
  have invm: "cs_inv h (cs\<lparr>connections_map := m\<rparr>)" and ok: "target_ok h conns" by simp_all
  from target_ok_keys[OF ok]
  obtain ks where keys: "sgids_of h conns = map Some ks" and srt: "sorted_wrt (<) ks"
    and len: "length ks = length conns"
    and nth: "\<And>j. j < length conns \<Longrightarrow> sgid (h ! (conns ! j)) = Some (ks ! j)"
    by blast
  show ?thesis
  proof (cases "conns = []")
    case True
    with len have "target_ok h (list_insert 0 conn conns)"
      using target_ok_list_insert[OF ok keys _ _ _ _ valid sg, of 0] by simp
    from cs_inv_update[OF invm this, where t = ?t and n = "conn_count cs + 1"] get True
    show ?thesis by (simp add: store_connection_def)
  next
    case ne: False
    have sorted: "sorted ks" using srt by (simp add: strict_sorted_iff)
    from bin_search_sorted[of "\<lambda>a. sgid (h ! a)" conns ks s] keys sorted
    obtain p where p: "bin_search conns s (\<lambda>a. sgid (h ! a)) = Inr p" "p \<le> length ks"
      "\<forall>j<p. ks ! j < s" "\<forall>j. p \<le> j \<and> j < length ks \<longrightarrow> s \<le> ks ! j"
      by (auto simp: sgids_of_def)
    show ?thesis
    proof (cases "p < length conns \<and> sgid (h ! (conns ! p)) = Some s")
      case True
      with get ne p(1) sg invm show ?thesis by (simp add: store_connection_def)
    next
      case False
      with nth[of p] len p(2) have "p = length ks \<or> ks ! p \<noteq> s" by (cases "p = length ks") auto
      from target_ok_list_insert[OF ok keys p(2,3,4) this valid sg]
      have "target_ok h (list_insert p conn conns)" .
      from cs_inv_update[OF invm this, where t = ?t and n = "conn_count cs + 1"]
        get ne p(1) sg False
      show ?thesis by (auto simp: store_connection_def)
    qed
  qed
qed

lemma example_connected_inv: "mgr_inv example_connected"
  by (simp add: mgr_inv_def cs_inv_def target_ok_def strictly_sorted_sgids_def sgids_of_def
      example_connected_eq example_defs)

lemma example_connected_pops:
  "populations example_connected
   = [((0, 0), (ConnectionSet_init 0 0)\<lparr>connections_map := [(1, [2, 0, 1])], conn_count := 3\<rparr>)]"
  by (simp add: example_connected_eq example_defs)

text \<open>
  Claim C10, as the code has it. When the selector matches at least one population of
  a well-formed manager and the pair is in none of the matched populations,
  \<open>disable\<close> raises \<open>AttributeError\<close>, and the registry and the connections are as
  before the call.
\<close>

theorem C10_disable_absent_raises:
  assumes inv: "mgr_inv m" and sel: "find_populations sel m = Inr ks" and ne: "ks \<noteq> []"
    and absent: "\<forall>k\<in>set ks. \<forall>pop. map_of (populations m) k = Some pop
                    \<longrightarrow> \<not> has_connection s t (heap m) pop"
  shows "\<exists>m'. disable s t also_zero_conductance sel m = (m', Some AttributeError)
           \<and> disabled_conns m' = disabled_conns m \<and> heap m' = heap m"
proof -
  from ne obtain k ks' where ks: "ks = k # ks'" by (cases ks) auto
  from find_populations_keys[OF sel, of k] ks
  obtain pop where pop: "map_of (populations m) k = Some pop" "(k, pop) \<in> set (populations m)"
    by auto
  from absent ks pop have no: "\<not> has_connection s t (heap m) pop" by simp
  from get_connection_absent[OF mgr_inv_pop(1)[OF inv pop(2)] no]
  obtain pop' where "get_connection s t (heap m) pop = Inr (pop', None)" by blast
  with pop ks sel show ?thesis by (simp add: disable_def)
qed

theorem C10_disable_absent_raises_witness:
  "mgr_inv example_connected
   \<and> find_populations NoIds example_connected = Inr [(0, 0)]
   \<and> \<not> has_connection 4 1 (heap example_connected)
         ((ConnectionSet_init 0 0)\<lparr>connections_map := [(1, [2, 0, 1])], conn_count := 3\<rparr>)
   \<and> (\<exists>m'. disable 4 1 False NoIds example_connected = (m', Some AttributeError)
         \<and> disabled_conns m' = disabled_conns example_connected
         \<and> heap m' = heap example_connected)"
proof -
  have sel: "find_populations NoIds example_connected = Inr [(0, 0)]"
    by (simp add: find_populations_def ids_match_def example_connected_pops)
  have ne: "[(0::int, 0::int)] \<noteq> []" by simp
  have no: "\<not> has_connection 4 1 (heap example_connected)
         ((ConnectionSet_init 0 0)\<lparr>connections_map := [(1, [2, 0, 1])], conn_count := 3\<rparr>)"
    by (simp add: has_connection_def sgids_of_def example_connected_eq example_defs)
  then have absent: "\<forall>k\<in>set [(0::int, 0::int)]. \<forall>pop. map_of (populations example_connected) k = Some pop
                    \<longrightarrow> \<not> has_connection 4 1 (heap example_connected) pop"
    by (simp add: example_connected_pops)
  from C10_disable_absent_raises[OF example_connected_inv sel ne absent, of False]
  show ?thesis using example_connected_inv sel no by blast
qed

text \<open>
  The claim as stated fails for a selector that matches no population: the pair is
  then in none of the matched populations, and \<open>disable\<close> returns without an
  exception.
\<close>

theorem C10_no_population_counterexample:
  "find_populations (SrcId 9) example_connected = Inr []
   \<and> disable 4 1 False (SrcId 9) example_connected = (example_connected, None)"
  by (simp add: disable_def find_populations_def ids_match_def example_connected_pops
      ConnectionSet_init_def)


subsection \<open>Disabling keeps the identifiers\<close>

lemma disabled_update_nth:
  "i < length h \<Longrightarrow>
   h[a := Connection_disable z (h ! a)] ! i = (if i = a then Connection_disable z (h ! i) else h ! i)"
  by (simp add: nth_list_update)

lemma sgid_disabled_update [simp]:
  "a < length h \<Longrightarrow> sgid (h[a := Connection_disable z (h ! a)] ! i) = sgid (h ! i)"
  by (cases "i = a") (simp_all add: Connection_disable_def)

lemma population_id_disabled_update [simp]:
  "a < length h \<Longrightarrow> population_id (h[a := Connection_disable z (h ! a)] ! i) = population_id (h ! i)"
  by (cases "i = a") (simp_all add: Connection_disable_def)

lemma sgids_of_disabled_update [simp]:
  "a < length h \<Longrightarrow> sgids_of (h[a := Connection_disable z (h ! a)]) conns = sgids_of h conns"
  by (simp add: sgids_of_def)

lemma cs_inv_disabled_update [simp]:
  "a < length h \<Longrightarrow> cs_inv (h[a := Connection_disable z (h ! a)]) cs = cs_inv h cs"
  by (simp add: cs_inv_def target_ok_def)

lemma has_connection_disabled_update [simp]:
  "a < length h \<Longrightarrow> has_connection s t (h[a := Connection_disable z (h ! a)]) cs = has_connection s t h cs"
  by (simp add: has_connection_def cong: option.case_cong)

lemma mgr_inv_disabled_update:
  "a < length (heap m) \<Longrightarrow> mgr_inv m
   \<Longrightarrow> mgr_inv (m\<lparr>heap := (heap m)[a := Connection_disable z (heap m ! a)], disabled_conns := d\<rparr>)"
  by (simp add: mgr_inv_def)

lemma selected_refs_disabled_update:
  "a < length (heap m) \<Longrightarrow>
   selected_refs s t ks (m\<lparr>heap := (heap m)[a := Connection_disable z (heap m ! a)], disabled_conns := d\<rparr>)
   = selected_refs s t ks m"
  by (simp add: selected_refs_def cong: option.case_cong)

subsection \<open>The connection found in a population\<close>

lemma filter_distinct_key:
  "distinct (map f xs) \<Longrightarrow> i < length xs \<Longrightarrow> filter (\<lambda>a. f a = f (xs ! i)) xs = [xs ! i]"
proof (induction xs arbitrary: i)
  case Nil
  then show ?case by simp
next
  case (Cons x xs)
  show ?case
  proof (cases i)
    case 0
    from Cons.prems(1) have "\<forall>a\<in>set xs. f a \<noteq> f x" by (metis distinct.simps(2) imageI list.simps(9) set_map)
    then have "filter (\<lambda>a. f a = f x) xs = []" by (simp add: filter_empty_conv)
    with 0 show ?thesis by simp
  next
    case (Suc j)
    with Cons.prems have j: "j < length xs" and d: "distinct (map f xs)" by simp_all
    from j have "xs ! j \<in> set xs" by simp
    with Cons.prems(1) have "f x \<noteq> f (xs ! j)" by (metis distinct.simps(2) imageI list.simps(9) set_map)
    with Cons.IH[OF d j] Suc show ?thesis by simp
  qed
qed

lemma selected_single:
  assumes inv: "mgr_inv m" and pop: "map_of (populations m) k = Some pop"
    and has: "has_connection s t (heap m) pop"
  shows "\<exists>a conns i. selected_refs s t [k] m = [a]
           \<and> map_of (connections_map pop) t = Some conns \<and> i < length conns \<and> conns ! i = a
           \<and> a < length (heap m) \<and> sgid (heap m ! a) = Some s \<and> population_id (heap m ! a) = k
           \<and> get_connection s t (heap m) pop = Inr (pop, Some a)"
proof -
  from pop have mem: "(k, pop) \<in> set (populations m)" by (rule map_of_SomeD)
  have cinv: "cs_inv (heap m) pop" by (rule mgr_inv_pop(1)[OF inv mem])
  from has obtain conns i where c: "map_of (connections_map pop) t = Some conns" "i < length conns"
    "sgid (heap m ! (conns ! i)) = Some s" by (auto simp: has_connection_iff)
  have ok: "target_ok (heap m) conns" by (rule cs_inv_lookup[OF cinv c(1)])
  from c(1) have tmem: "(t, conns) \<in> set (connections_map pop)" by (rule map_of_SomeD)
  from c(2) have amem: "conns ! i \<in> set conns" by simp
  have valid: "conns ! i < length (heap m)" using ok amem by (simp add: target_ok_def list_all_iff)
  have pid: "population_id (heap m ! (conns ! i)) = k" by (rule mgr_inv_pop(3)[OF inv mem tmem amem])
  from cs_inv_sorted[OF cinv tmem] have "distinct (map (\<lambda>a. sgid (heap m ! a)) conns)"
    by (simp add: sgids_of_def)
  from filter_distinct_key[OF this c(2)] c(3)
  have "filter (\<lambda>a. sgid (heap m ! a) = Some s) conns = [conns ! i]" by simp
  then have sel: "selected_refs s t [k] m = [conns ! i]" by (simp add: selected_refs_def pop c(1))
  from get_connection_present[OF cinv c] sel c valid pid show ?thesis by blast
qed

lemma selected_refs_Cons:
  "selected_refs s t (k # ks) m = selected_refs s t [k] m @ selected_refs s t ks m"
  by (simp add: selected_refs_def)

subsection \<open>The registry list of a target\<close>

lemma registry_update [simp]: "snd (defaultdict_getitem (AList.update t v d) t) = v"
  by (simp add: defaultdict_getitem_def AList.update_conv')

lemma registry_getitem_fst [simp]:
  "snd (defaultdict_getitem (fst (defaultdict_getitem d t)) t) = snd (defaultdict_getitem d t)"
  by (auto simp: defaultdict_getitem_def map_add_def split: option.splits)

lemma getitem_update_same:
  "defaultdict_getitem (AList.update t v d) t = (AList.update t v d, v)"
  by (simp add: defaultdict_getitem_def AList.update_conv')


subsection \<open>The loop of \<open>disable\<close>\<close>

lemma disable_loop_ok:
  assumes "mgr_inv m"
    and "\<forall>k\<in>set ks. \<exists>pop. map_of (populations m) k = Some pop \<and> has_connection s t (heap m) pop"
  shows "\<exists>m1. disable_loop s t z ks m = (m1, None)
           \<and> populations m1 = populations m \<and> length (heap m1) = length (heap m)
           \<and> (\<forall>i<length (heap m). heap m1 ! i
                  = (if i \<in> set (selected_refs s t ks m) then Connection_disable z (heap m ! i)
                     else heap m ! i))
           \<and> (\<forall>a\<in>set (selected_refs s t ks m).
                  a < length (heap m) \<and> sgid (heap m ! a) = Some s
                  \<and> population_id (heap m ! a) \<in> set ks)
           \<and> snd (defaultdict_getitem (disabled_conns m1) t)
               = snd (defaultdict_getitem (disabled_conns m) t) @ selected_refs s t ks m
           \<and> total_connections m1 = total_connections m"
  using assms
proof (induction ks arbitrary: m)
  case Nil
  then show ?case by (simp add: selected_refs_def)
next
  case (Cons k ks)
  from Cons.prems(2) obtain pop where pop: "map_of (populations m) k = Some pop"
    and has: "has_connection s t (heap m) pop" by auto
  from selected_single[OF Cons.prems(1) pop has]
  obtain a where a: "selected_refs s t [k] m = [a]" "a < length (heap m)"
    "sgid (heap m ! a) = Some s" "population_id (heap m ! a) = k"
    "get_connection s t (heap m) pop = Inr (pop, Some a)" by blast
  define d where "d = fst (defaultdict_getitem (disabled_conns m) t)"
  define lst where "lst = snd (defaultdict_getitem (disabled_conns m) t)"
  define m' where "m' = m\<lparr>heap := (heap m)[a := Connection_disable z (heap m ! a)],
                          disabled_conns := AList.update t (lst @ [a]) d\<rparr>"
  have get: "defaultdict_getitem (disabled_conns m) t = (d, lst)" by (simp add: d_def lst_def)
  have step: "disable_loop s t z (k # ks) m = disable_loop s t z ks m'"
    by (simp add: pop a(5) get m'_def AList.update_triv[OF pop])
  have inv': "mgr_inv m'" unfolding m'_def by (rule mgr_inv_disabled_update[OF a(2) Cons.prems(1)])
  have pops': "populations m' = populations m" by (simp add: m'_def)
  have heap': "heap m' = (heap m)[a := Connection_disable z (heap m ! a)]" by (simp add: m'_def)
  have sel': "selected_refs s t ks m' = selected_refs s t ks m"
    unfolding m'_def by (rule selected_refs_disabled_update[OF a(2)])
  have pres': "\<forall>k\<in>set ks. \<exists>pop. map_of (populations m') k = Some pop
                  \<and> has_connection s t (heap m') pop"
    using Cons.prems(2) a(2) by (simp add: pops' heap')
  from Cons.IH[OF inv' pres']
  obtain m1 where m1: "disable_loop s t z ks m' = (m1, None)"
    "populations m1 = populations m'" "length (heap m1) = length (heap m')"
    "\<forall>i<length (heap m'). heap m1 ! i
        = (if i \<in> set (selected_refs s t ks m') then Connection_disable z (heap m' ! i)
           else heap m' ! i)"
    "\<forall>a\<in>set (selected_refs s t ks m').
        a < length (heap m') \<and> sgid (heap m' ! a) = Some s \<and> population_id (heap m' ! a) \<in> set ks"
    "snd (defaultdict_getitem (disabled_conns m1) t)
       = snd (defaultdict_getitem (disabled_conns m') t) @ selected_refs s t ks m'"
    "total_connections m1 = total_connections m'" by blast
  have refs: "selected_refs s t (k # ks) m = a # selected_refs s t ks m"
    using selected_refs_Cons[of s t k ks m] a(1) by simp
  have idem: "\<And>c :: 'a connection. Connection_disable z (Connection_disable z c) = Connection_disable z c"
    by (simp add: Connection_disable_def)
  have nth: "\<forall>i<length (heap m). heap m1 ! i
        = (if i \<in> set (selected_refs s t (k # ks) m) then Connection_disable z (heap m ! i)
           else heap m ! i)"
  proof (intro allI impI)
    fix i assume i: "i < length (heap m)"
    with m1(4) have "heap m1 ! i = (if i \<in> set (selected_refs s t ks m)
         then Connection_disable z (heap m' ! i) else heap m' ! i)"
      by (simp add: heap' sel')
    moreover have "heap m' ! i = (if i = a then Connection_disable z (heap m ! i) else heap m ! i)"
      using i by (simp add: heap' nth_list_update)
    ultimately show "heap m1 ! i
        = (if i \<in> set (selected_refs s t (k # ks) m) then Connection_disable z (heap m ! i)
           else heap m ! i)"
      by (cases "i = a") (simp_all add: refs idem)
  qed
  have valid: "\<forall>b\<in>set (selected_refs s t (k # ks) m).
        b < length (heap m) \<and> sgid (heap m ! b) = Some s \<and> population_id (heap m ! b) \<in> set (k # ks)"
    using m1(5) a(2,3,4) by (auto simp: refs sel' heap')
  have reg: "snd (defaultdict_getitem (disabled_conns m1) t)
       = snd (defaultdict_getitem (disabled_conns m) t) @ selected_refs s t (k # ks) m"
    using m1(6) unfolding sel' by (simp add: m'_def refs lst_def)
  from step m1(1,2,3,7) nth valid reg show ?case
    by (simp add: pops' heap' m'_def)
qed

subsection \<open>Re-enabling\<close>

lemma enable_all_length [simp]: "length (enable_all refs h) = length h"
  by (induction refs arbitrary: h) simp_all

lemma enable_all_nth:
  "i < length h \<Longrightarrow> enable_all refs h ! i
     = (if i \<in> set refs then Connection_enable (h ! i) else h ! i)"
proof (induction refs arbitrary: h)
  case Nil
  then show ?case by simp
next
  case (Cons c refs)
  have idem: "\<And>x :: 'a connection. Connection_enable (Connection_enable x) = Connection_enable x"
    by (simp add: Connection_enable_def)
  from Cons.prems have "i < length (h[c := Connection_enable (h ! c)])" by simp
  from Cons.IH[OF this] Cons.prems show ?case
    by (cases "i = c") (simp_all add: nth_list_update idem)
qed

lemma filter_enumerate_all:
  "\<forall>x\<in>set xs. P x \<Longrightarrow> filter (\<lambda>(i, x). P x) (enumerate n xs) = enumerate n xs"
  by (induction xs arbitrary: n) simp_all

lemma filter_enumerate_none:
  "\<forall>x\<in>set xs. \<not> P x \<Longrightarrow> filter (\<lambda>(i, x). P x) (enumerate n xs) = []"
  by (induction xs arbitrary: n) simp_all

lemma numpy_delete_tail:
  "numpy_delete (old @ refs) (map fst (enumerate (length old) refs)) = Inr old"
proof -
  let ?idx = "[length old..<length old + length refs]"
  have idx: "map fst (enumerate (length old) refs) = ?idx"
    by simp
  have keep: "filter (\<lambda>(i, x). i \<notin> set ?idx) (enumerate 0 old) = enumerate 0 old"
    by (rule filter_True) (auto simp: in_set_enumerate_eq)
  have drop: "filter (\<lambda>(i, x). i \<notin> set ?idx) (enumerate (length old) refs) = []"
    by (auto simp: filter_empty_conv in_set_enumerate_eq)
  have nex: "\<not> list_ex (\<lambda>i. length (old @ refs) \<le> i) ?idx"
    by (auto simp: list_ex_iff)
  have "numpy_delete (old @ refs) ?idx
        = Inr (map snd (filter (\<lambda>(i, x). i \<notin> set ?idx) (enumerate 0 (old @ refs))))"
    unfolding numpy_delete_def using nex by (simp only: if_False)
  also have "filter (\<lambda>(i, x). i \<notin> set ?idx) (enumerate 0 (old @ refs)) = enumerate 0 old"
    by (simp only: enumerate_append_eq filter_append keep drop append_Nil2 add_0)
  also have "map snd (enumerate 0 old) = old" by simp
  finally show ?thesis by (simp only: idx)
qed

lemma numpy_delete_tail_upt:
  "numpy_delete (old @ refs) [length old..<length old + length refs] = Inr old"
  using numpy_delete_tail[of old refs] by simp

lemma reenable_tail:
  assumes sel: "find_populations sel m = Inr ks"
    and reg: "snd (defaultdict_getitem (disabled_conns m) t) = old @ refs"
    and old: "\<forall>a\<in>set old. \<not> (sgid (heap m ! a) = Some s
                  \<and> population_id (heap m ! a) \<in> set (allowed_pop_ids ks m))"
    and refs: "\<forall>a\<in>set refs. sgid (heap m ! a) = Some s
                  \<and> population_id (heap m ! a) \<in> set (allowed_pop_ids ks m)"
  shows "reenable s t sel m
         = (m\<lparr>heap := enable_all refs (heap m),
              disabled_conns := AList.update t old (fst (defaultdict_getitem (disabled_conns m) t))\<rparr>,
            None)"
proof -
  define d where "d = fst (defaultdict_getitem (disabled_conns m) t)"
  have get: "defaultdict_getitem (disabled_conns m) t = (d, old @ refs)"
    using reg by (simp add: d_def prod_eq_iff)
  let ?P = "\<lambda>conn. sgid (heap m ! conn) = Some s
                  \<and> population_id (heap m ! conn) \<in> set (allowed_pop_ids ks m)"
  have hits: "filter (\<lambda>(i, conn). ?P conn) (enumerate 0 (old @ refs)) = enumerate (length old) refs"
    using filter_enumerate_none[of old ?P 0] filter_enumerate_all[of refs ?P "length old"] old refs
    by (simp add: enumerate_append_eq)
  show ?thesis
    unfolding reenable_def
    by (simp add: sel get hits numpy_delete_tail_upt Let_def d_def[symmetric])
qed


lemma find_populations_same_pops:
  "populations m' = populations m \<Longrightarrow> find_populations sel m' = find_populations sel m"
  unfolding find_populations_def by (erule ssubst) (rule refl)

lemma allowed_pop_ids_keys:
  assumes "\<forall>k\<in>set ks. \<exists>pop. map_of (populations m) k = Some pop \<and> (src_id pop, dst_id pop) = k"
  shows "allowed_pop_ids ks m = ks"
  using assms by (induction ks) (auto simp: allowed_pop_ids_def)

lemma allowed_pop_ids_same_pops:
  "populations m' = populations m \<Longrightarrow> allowed_pop_ids ks m' = allowed_pop_ids ks m"
  by (simp add: allowed_pop_ids_def)

lemma get_disabled_list:
  "snd (get_disabled t m) = snd (defaultdict_getitem (disabled_conns m) t)"
  by (simp add: get_disabled_def split_beta)

lemma enable_disabled:
  "\<not> disabled c \<Longrightarrow> Connection_enable (Connection_disable z c) = c"
  by (simp add: Connection_enable_def Connection_disable_def)

lemma example_registered_eq:
  "example_registered
   = example_manager
        \<lparr>heap := heap example_connected
                 @ [\<lparr>sgid = Some 5, tgid = 1, population_id = (5, 0), weight_factor = 1,
                      locked = True, disabled = True,
                      synapses = [((), example_rows ! 3, 3), ((), example_rows ! 4, 4)],
                      delayed_weights = []\<rparr>,
                    \<lparr>sgid = Some 7, tgid = 1, population_id = (5, 0), weight_factor = 1,
                      locked = True, disabled = False,
                      synapses = [((), example_rows ! 5, 5)], delayed_weights = []\<rparr>],
         populations := [((0, 0), (ConnectionSet_init 0 0)
                           \<lparr>connections_map := [(1, [2, 0, 1])], conn_count := 3\<rparr>),
                         ((5, 0), (ConnectionSet_init 5 0)
                           \<lparr>connections_map := [(1, [3, 4])], conn_count := 2\<rparr>)],
         cur_population := (5, 0),
         disabled_conns := [(1, [3])],
         total_connections := 5\<rparr>"
  unfolding example_registered_def select_populations_def get_population_def example_connected_eq
  by (simp add: example_defs connect_defs disable_def find_populations_def ids_match_def
      get_connection_def find_connection_def Connection_disable_def)

text \<open>
  Claim C7, as the code has it. In a well-formed manager, let the selector match
  populations that all hold the pair \<open>(s, t)\<close>, with none of these connections
  disabled, and let the registry of \<open>t\<close> hold no connection of source \<open>s\<close> that
  belongs to one of the matched populations; it may hold any other connection. Then
  \<open>disable(s, t)\<close>, with the selector and the default \<open>also_zero_conductance\<close>,
  returns normally, sets the disabled flag of the connections and appends them to the
  registry of \<open>t\<close>, and the populations are as before: the connections stay in the
  active set. The following \<open>reenable\<close> with the same selector returns normally, and
  the connections with all their attributes, the populations and the registry of \<open>t\<close>
  are as before \<open>disable\<close>. The connection count of the manager is the same at the
  three moments.
\<close>

theorem C7_disable_reenable_round_trip:
  assumes inv: "mgr_inv m" and sel: "find_populations sel m = Inr ks"
    and present: "\<forall>k\<in>set ks. \<forall>pop. map_of (populations m) k = Some pop
                     \<longrightarrow> has_connection s t (heap m) pop"
    and reg: "\<forall>a\<in>set (snd (get_disabled t m)). a < length (heap m)
                  \<and> \<not> (sgid (heap m ! a) = Some s \<and> population_id (heap m ! a) \<in> set ks)"
    and enabled: "\<forall>a\<in>set (selected_refs s t ks m). \<not> disabled (heap m ! a)"
  shows "\<exists>m1 m2. disable s t False sel m = (m1, None)
           \<and> populations m1 = populations m
           \<and> snd (get_disabled t m1) = snd (get_disabled t m) @ selected_refs s t ks m
           \<and> (\<forall>a\<in>set (selected_refs s t ks m). heap m1 ! a = (heap m ! a)\<lparr>disabled := True\<rparr>)
           \<and> reenable s t sel m1 = (m2, None)
           \<and> heap m2 = heap m \<and> populations m2 = populations m
           \<and> snd (get_disabled t m2) = snd (get_disabled t m)
           \<and> connection_count m1 = connection_count m \<and> connection_count m2 = connection_count m"
proof -
  let ?refs = "selected_refs s t ks m"
  let ?old = "snd (defaultdict_getitem (disabled_conns m) t)"
  have keys: "\<forall>k\<in>set ks. \<exists>pop. map_of (populations m) k = Some pop
                 \<and> (k, pop) \<in> set (populations m)"
    using find_populations_keys[OF sel] by blast
  with present have pres: "\<forall>k\<in>set ks. \<exists>pop. map_of (populations m) k = Some pop
                 \<and> has_connection s t (heap m) pop" by blast
  from disable_loop_ok[OF inv pres, of False]
  obtain m1 where m1: "disable_loop s t False ks m = (m1, None)"
    "populations m1 = populations m" "length (heap m1) = length (heap m)"
    "\<forall>i<length (heap m). heap m1 ! i
        = (if i \<in> set ?refs then Connection_disable False (heap m ! i) else heap m ! i)"
    "\<forall>a\<in>set ?refs. a < length (heap m) \<and> sgid (heap m ! a) = Some s
        \<and> population_id (heap m ! a) \<in> set ks"
    "snd (defaultdict_getitem (disabled_conns m1) t) = ?old @ ?refs"
    "total_connections m1 = total_connections m" by blast
  have dis: "disable s t False sel m = (m1, None)" by (simp add: disable_def sel m1(1))
  have ids: "\<And>i. i < length (heap m) \<Longrightarrow> sgid (heap m1 ! i) = sgid (heap m ! i)
                \<and> population_id (heap m1 ! i) = population_id (heap m ! i)"
    using m1(4) by (simp add: Connection_disable_def)
  have flagged: "\<forall>a\<in>set ?refs. heap m1 ! a = (heap m ! a)\<lparr>disabled := True\<rparr>"
    using m1(4,5) by (simp add: Connection_disable_def)
  have sel1: "find_populations sel m1 = Inr ks"
    using sel find_populations_same_pops[OF m1(2)] by simp
  have "\<forall>k\<in>set ks. \<exists>pop. map_of (populations m) k = Some pop \<and> (src_id pop, dst_id pop) = k"
  proof
    fix k assume "k \<in> set ks"
    with keys obtain pop where p: "map_of (populations m) k = Some pop"
      "(k, pop) \<in> set (populations m)" by blast
    from mgr_inv_pop(2)[OF inv p(2)] p(1)
    show "\<exists>pop. map_of (populations m) k = Some pop \<and> (src_id pop, dst_id pop) = k" by simp
  qed
  then have allowed: "allowed_pop_ids ks m1 = ks"
    using allowed_pop_ids_keys[of ks m] allowed_pop_ids_same_pops[OF m1(2)] by simp
  have old: "\<forall>a\<in>set ?old. \<not> (sgid (heap m1 ! a) = Some s
                  \<and> population_id (heap m1 ! a) \<in> set (allowed_pop_ids ks m1))"
    using reg ids by (simp add: get_disabled_list allowed)
  have refs: "\<forall>a\<in>set ?refs. sgid (heap m1 ! a) = Some s
                  \<and> population_id (heap m1 ! a) \<in> set (allowed_pop_ids ks m1)"
    using m1(5) ids by (simp add: allowed)
  define m2 where "m2 = m1\<lparr>heap := enable_all ?refs (heap m1),
       disabled_conns := AList.update t ?old (fst (defaultdict_getitem (disabled_conns m1) t))\<rparr>"
  from reenable_tail[OF sel1 m1(6) old refs]
  have re: "reenable s t sel m1 = (m2, None)" by (simp add: m2_def)
  have heap2: "heap m2 = heap m"
  proof (rule nth_equalityI)
    show "length (heap m2) = length (heap m)" by (simp add: m2_def m1(3))
  next
    fix i assume "i < length (heap m2)"
    then have i: "i < length (heap m)" by (simp add: m2_def m1(3))
    then have i1: "i < length (heap m1)" by (simp add: m1(3))
    show "heap m2 ! i = heap m ! i"
    proof (cases "i \<in> set ?refs")
      case True
      with enabled have "\<not> disabled (heap m ! i)" by blast
      with True i i1 m1(4) show ?thesis
        by (simp add: m2_def enable_all_nth enable_disabled)
    next
      case False
      with i i1 m1(4) show ?thesis by (simp add: m2_def enable_all_nth)
    qed
  qed
  have pops2: "populations m2 = populations m" by (simp add: m2_def m1(2))
  have reg2: "snd (get_disabled t m2) = snd (get_disabled t m)"
    by (simp add: get_disabled_list m2_def)
  have reg1: "snd (get_disabled t m1) = snd (get_disabled t m) @ ?refs"
    by (simp add: get_disabled_list m1(6))
  have cnt: "connection_count m1 = connection_count m" "connection_count m2 = connection_count m"
    by (simp_all add: connection_count_def m1(7) m2_def)
  from dis m1(2) reg1 flagged re heap2 pops2 reg2 cnt show ?thesis by blast
qed


theorem C7_disable_reenable_round_trip_witness:
  "mgr_inv example_registered
   \<and> find_populations (SrcId 0) example_registered = Inr [(0, 0)]
   \<and> map_of (populations example_registered) (0, 0)
       = Some ((ConnectionSet_init 0 0)\<lparr>connections_map := [(1, [2, 0, 1])], conn_count := 3\<rparr>)
   \<and> has_connection 5 1 (heap example_registered)
         ((ConnectionSet_init 0 0)\<lparr>connections_map := [(1, [2, 0, 1])], conn_count := 3\<rparr>)
   \<and> snd (get_disabled 1 example_registered) = [3]
   \<and> length (heap example_registered) = 5
   \<and> sgid (heap example_registered ! 3) = Some 5
   \<and> population_id (heap example_registered ! 3) = (5, 0)
   \<and> selected_refs 5 1 [(0, 0)] example_registered = [0]
   \<and> \<not> disabled (heap example_registered ! 0)
   \<and> (\<exists>m1 m2. disable 5 1 False (SrcId 0) example_registered = (m1, None)
           \<and> populations m1 = populations example_registered
           \<and> snd (get_disabled 1 m1) = [3, 0]
           \<and> heap m1 ! 0 = (heap example_registered ! 0)\<lparr>disabled := True\<rparr>
           \<and> reenable 5 1 (SrcId 0) m1 = (m2, None)
           \<and> heap m2 = heap example_registered
           \<and> populations m2 = populations example_registered
           \<and> snd (get_disabled 1 m2) = [3]
           \<and> connection_count m1 = connection_count example_registered
           \<and> connection_count m2 = connection_count example_registered)"
proof -
  let ?pop = "(ConnectionSet_init 0 0)\<lparr>connections_map := [(1, [2, 0, 1])], conn_count := 3\<rparr>"
  have inv: "mgr_inv example_registered"
    by (simp add: mgr_inv_def cs_inv_def target_ok_def strictly_sorted_sgids_def sgids_of_def
        example_registered_eq example_connected_eq example_defs)
  have sel: "find_populations (SrcId 0) example_registered = Inr [(0, 0)]"
    by (simp add: find_populations_def ids_match_def example_registered_eq example_defs)
  have pop: "map_of (populations example_registered) (0, 0) = Some ?pop"
    by (simp add: example_registered_eq example_defs)
  have has: "has_connection 5 1 (heap example_registered) ?pop"
    by (simp add: has_connection_def sgids_of_def example_registered_eq example_connected_eq
        example_defs)
  with pop have present: "\<forall>k\<in>set [(0::int, 0::int)]. \<forall>pop.
        map_of (populations example_registered) k = Some pop
          \<longrightarrow> has_connection 5 1 (heap example_registered) pop"
    by simp
  have regl: "snd (get_disabled 1 example_registered) = [3]"
    by (simp add: get_disabled_def defaultdict_getitem_def example_registered_eq example_defs)
  have len: "length (heap example_registered) = 5"
    by (simp add: example_registered_eq example_connected_eq example_defs)
  have r3: "sgid (heap example_registered ! 3) = Some 5"
    "population_id (heap example_registered ! 3) = (5, 0)"
    by (simp_all add: example_registered_eq example_connected_eq example_defs)
  from regl len r3 have reg: "\<forall>a\<in>set (snd (get_disabled 1 example_registered)).
       a < length (heap example_registered)
       \<and> \<not> (sgid (heap example_registered ! a) = Some 5
             \<and> population_id (heap example_registered ! a) \<in> set [(0, 0)])"
    by simp
  have refs: "selected_refs 5 1 [(0, 0)] example_registered = [0]"
    by (simp add: selected_refs_def example_registered_eq example_connected_eq example_defs)
  have en: "\<not> disabled (heap example_registered ! 0)"
    by (simp add: example_registered_eq example_connected_eq example_defs)
  then have enabled: "\<forall>a\<in>set (selected_refs 5 1 [(0, 0)] example_registered).
       \<not> disabled (heap example_registered ! a)"
    by (simp add: refs)
  from C7_disable_reenable_round_trip[OF inv sel present reg enabled]
  have "\<exists>m1 m2. disable 5 1 False (SrcId 0) example_registered = (m1, None)
           \<and> populations m1 = populations example_registered
           \<and> snd (get_disabled 1 m1) = [3, 0]
           \<and> heap m1 ! 0 = (heap example_registered ! 0)\<lparr>disabled := True\<rparr>
           \<and> reenable 5 1 (SrcId 0) m1 = (m2, None)
           \<and> heap m2 = heap example_registered
           \<and> populations m2 = populations example_registered
           \<and> snd (get_disabled 1 m2) = [3]
           \<and> connection_count m1 = connection_count example_registered
           \<and> connection_count m2 = connection_count example_registered"
    by (simp add: refs regl)
  with inv sel pop has regl len r3 refs en show ?thesis by blast
qed

text \<open>
  The claim as stated fails twice. After \<open>disable\<close> the connection is in the registry
  and still in its ConnectionSet, where the lookup finds it: it has not moved. And
  with the default selector, when a second population does not hold the pair,
  \<open>disable\<close> raises \<open>AttributeError\<close> after it has disabled and registered the
  connection of the first population.
\<close>

theorem C7_not_moved_counterexample:
  "snd (disable 5 1 False NoIds example_connected) = None
   \<and> populations (fst (disable 5 1 False NoIds example_connected))
       = [((0, 0), (ConnectionSet_init 0 0)\<lparr>connections_map := [(1, [2, 0, 1])], conn_count := 3\<rparr>)]
   \<and> disabled_conns (fst (disable 5 1 False NoIds example_connected)) = [(1, [0])]
   \<and> get_connection 5 1 (heap (fst (disable 5 1 False NoIds example_connected)))
         ((ConnectionSet_init 0 0)\<lparr>connections_map := [(1, [2, 0, 1])], conn_count := 3\<rparr>)
       = Inr ((ConnectionSet_init 0 0)\<lparr>connections_map := [(1, [2, 0, 1])], conn_count := 3\<rparr>, Some 0)
   \<and> map fst (populations example_two_populations) = [(0, 0), (5, 0)]
   \<and> snd (disable 5 1 False NoIds example_two_populations) = Some AttributeError
   \<and> disabled_conns (fst (disable 5 1 False NoIds example_two_populations)) = [(1, [0])]"
  by (simp add: disable_def find_populations_def ids_match_def example_two_populations_def
      get_population_def example_connected_eq example_defs
      get_connection_def find_connection_def defaultdict_getitem_def bin_search_def
      bin_search_loop.simps Connection_disable_def Let_def)

end
